theory Spec2Isabelle
  imports Main "HOL-Library.Word"
begin

unbundle bit_operations_syntax

section \<open>tinyi2s.c: the I2S DMA driver of the ESP8266 port\<close>

text \<open>
  A shallow embedding of \<^verbatim>\<open>build/devices/esp/lib/tinyi2s/tinyi2s.c\<close>. The file's
  static variables are the fields of one state record; every access to a memory-mapped
  register, every platform call (interrupt control, clock gating, pin multiplexing,
  \<^verbatim>\<open>malloc\<close>, \<^verbatim>\<open>free\<close>) and every call of the render callback is appended, in program
  order, to a trace kept in the state. Undefined behaviour the driver can run into
  (a division by zero, \<^verbatim>\<open>free\<close> of a block that is not allocated, an array index out of
  range, a descriptor pointer that is no descriptor, a call through a null \<^verbatim>\<open>i2s_render\<close>)
  is an error value.
\<close>

subsection \<open>Machine types and constants\<close>

type_synonym u8 = "8 word"
type_synonym u32 = "32 word"

text \<open>\<^verbatim>\<open>#define SLC_BUF_CNT (4)\<close> and \<^verbatim>\<open>#define SLC_BUF_LEN (64)\<close>.\<close>

definition SLC_BUF_CNT :: nat where
  "SLC_BUF_CNT = 4"

definition SLC_BUF_LEN :: nat where
  "SLC_BUF_LEN = 64"

text \<open>
  The macros of \<^verbatim>\<open>i2s_reg.h\<close> whose values the driver computes with, and the address the
  linker gives the static array \<^verbatim>\<open>i2s_slc_items\<close>. The header is not among the sources at
  hand, so they are parameters: every definition below takes the platform, and the
  general theorems hold for every platform.
\<close>

record platform =
  I2SBASEFREQ :: u32
  I2SCDM :: u32
  I2SBDM :: u32
  SLCIRXEOF :: u32
  items_addr :: u32

text \<open>
  One concrete platform, used where a theorem is evaluated at an input: the values the
  ESP8266 Arduino core (from which the driver was stripped) gives these macros, a base
  clock of 160 MHz, 6-bit divider fields and bit 16 for the RX end-of-frame interrupt,
  with the descriptor array placed in data RAM.
\<close>

definition esp8266 :: platform where
  "esp8266 = \<lparr> I2SBASEFREQ = 160000000, I2SCDM = 0x3F, I2SBDM = 0x3F,
               SLCIRXEOF = 0x10000, items_addr = 0x3FFE8000 \<rparr>"

datatype error =
  DivisionByZero | InvalidFree | OutOfBounds | BadDescriptorAddress | NullCallback

subsection \<open>The rate computation of \<^verbatim>\<open>i2s_begin\<close>\<close>

text \<open>
  \<^verbatim>\<open>uint32_t i2s_clock_div = (I2SBASEFREQ/(rate*32)) & I2SCDM;\<close>
  \<^verbatim>\<open>uint8_t i2s_bck_div = (I2SBASEFREQ/(rate*i2s_clock_div*2)) & I2SBDM;\<close>
  All operands are unsigned 32-bit values (\<^verbatim>\<open>rate\<close> is a \<^verbatim>\<open>uint32_t\<close>), so the products wrap
  and the divisions are unsigned; the second result is truncated to 8 bits. Neither
  divisor is checked: a zero divisor is the error \<open>DivisionByZero\<close>.
\<close>

definition i2s_clock_div :: "platform \<Rightarrow> u32 \<Rightarrow> error + u32" where
  "i2s_clock_div pf rate =
     (if rate * 32 = 0 then Inl DivisionByZero
      else Inr ((I2SBASEFREQ pf div (rate * 32)) AND I2SCDM pf))"

definition i2s_bck_div :: "platform \<Rightarrow> u32 \<Rightarrow> u32 \<Rightarrow> error + u8" where
  "i2s_bck_div pf rate clock_div =
     (if rate * clock_div * 2 = 0 then Inl DivisionByZero
      else Inr (ucast ((I2SBASEFREQ pf div (rate * clock_div * 2)) AND I2SBDM pf)))"

definition i2s_dividers :: "platform \<Rightarrow> u32 \<Rightarrow> error + (u32 \<times> u8)" where
  "i2s_dividers pf rate =
     (case i2s_clock_div pf rate of
        Inl e \<Rightarrow> Inl e
      | Inr clock_div \<Rightarrow>
          (case i2s_bck_div pf rate clock_div of
             Inl e \<Rightarrow> Inl e
           | Inr bck_div \<Rightarrow> Inr (clock_div, bck_div)))"

subsection \<open>Descriptors, trace events and the driver's state\<close>

text \<open>
  \<^verbatim>\<open>struct slc_queue_item\<close>: six bit fields packed in one 32-bit word, then two 32-bit words,
  12 bytes in all.
\<close>

record slc_queue_item =
  blocksize :: "12 word"
  datalen :: "12 word"
  unused :: "5 word"
  sub_sof :: "1 word"
  eof :: "1 word"
  owner :: "1 word"
  buf_ptr :: u32
  next_link_ptr :: u32

definition sizeof_slc_queue_item :: nat where
  "sizeof_slc_queue_item = 12"

text \<open>\<^verbatim>\<open>&i2s_slc_items[x]\<close>, as a 32-bit address.\<close>

definition item_addr :: "platform \<Rightarrow> nat \<Rightarrow> u32" where
  "item_addr pf x = items_addr pf + of_nat (x * sizeof_slc_queue_item)"

datatype pin_mode = INPUT | FUNCTION_0 | FUNCTION_1

datatype reg =
  SLCC0 | SLCIC | SLCIE | SLCRXDC | SLCTXL | SLCRXL | I2SIC | I2SIE | I2SC | I2SFC | I2SCC

text \<open>
  The right-hand side of a register statement: a 32-bit value the driver computes, a mask
  expression over macros of \<^verbatim>\<open>i2s_reg.h\<close> (kept as the source writes it), or a computed
  value shifted by such a macro.
\<close>

datatype operand = Lit u32 | Macro string | Shifted u32 string

text \<open>
  What the driver does to its environment. \<open>RegAssign r v\<close> is \<^verbatim>\<open>r = v\<close>, \<open>RegSet r vs\<close>
  is \<^verbatim>\<open>r |= v1 | ... | vn\<close>, \<open>RegClear r vs\<close> is \<^verbatim>\<open>r &= ~(v1 | ... | vn)\<close>;
  \<open>Render f refcon buf len\<close> is the call \<^verbatim>\<open>(*i2s_render)(i2s_render_refcon, buf, len)\<close>
  of the callback \<open>f\<close>; \<open>Malloc n p\<close> is a call of \<^verbatim>\<open>malloc(n)\<close> that returned \<open>p\<close>.
\<close>

datatype event =
    Render u32 u32 u32 nat
  | Malloc nat u32
  | Free u32
  | ETS_SLC_INTR_DISABLE
  | ETS_SLC_INTR_ENABLE
  | ETS_SLC_INTR_ATTACH
  | I2S_CLK_ENABLE
  | I2S_CLK_DISABLE
  | PinMode nat pin_mode
  | RegAssign reg operand
  | RegSet reg "operand list"
  | RegClear reg "operand list"

text \<open>
  The static variables of the file, the set of heap blocks that are allocated (by their
  base addresses) and the trace. A null pointer is the address 0.
\<close>

record i2s_state =
  i2s_slc_queue :: "u32 list"
  i2s_slc_queue_len :: u8
  i2s_slc_buf_pntr :: u32
  i2s_slc_items :: "slc_queue_item list"
  i2s_render :: u32
  i2s_render_refcon :: u32
  heap :: "u32 set"
  trace :: "event list"

text \<open>The arrays have their declared sizes: \<open>SLC_BUF_CNT - 1\<close> and \<open>SLC_BUF_CNT\<close>.\<close>

definition wf_state :: "i2s_state \<Rightarrow> bool" where
  "wf_state s =
     (length (i2s_slc_queue s) = SLC_BUF_CNT - 1 \<and> length (i2s_slc_items s) = SLC_BUF_CNT)"

definition zero_item :: slc_queue_item where
  "zero_item = \<lparr> blocksize = 0, datalen = 0, unused = 0, sub_sof = 0, eof = 0, owner = 0,
                 buf_ptr = 0, next_link_ptr = 0 \<rparr>"

text \<open>Static storage is zero-initialised; nothing is allocated and nothing has happened.\<close>

definition init_state :: i2s_state where
  "init_state = \<lparr> i2s_slc_queue = [0, 0, 0], i2s_slc_queue_len = 0, i2s_slc_buf_pntr = 0,
                  i2s_slc_items = [zero_item, zero_item, zero_item, zero_item],
                  i2s_render = 0, i2s_render_refcon = 0, heap = {}, trace = [] \<rparr>"

definition emit :: "event list \<Rightarrow> i2s_state \<Rightarrow> i2s_state" where
  "emit es s = s\<lparr> trace := trace s @ es \<rparr>"

subsection \<open>The allocator\<close>

text \<open>
  \<^verbatim>\<open>malloc(n)\<close>: the environment chooses the answer \<open>p\<close>, null when the request cannot
  be met. \<^verbatim>\<open>free(p)\<close> releases an allocated block, does nothing for a null pointer and is
  undefined (\<open>InvalidFree\<close>) for any other address, a block already freed included.
\<close>

definition malloc_answer :: "nat \<Rightarrow> u32 \<Rightarrow> i2s_state \<Rightarrow> i2s_state" where
  "malloc_answer n p s =
     emit [Malloc n p] (s\<lparr> heap := (if p = 0 then heap s else insert p (heap s)) \<rparr>)"

definition free_block :: "u32 \<Rightarrow> i2s_state \<Rightarrow> error + i2s_state" where
  "free_block p s =
     (if p = 0 then Inr (emit [Free p] s)
      else if p \<in> heap s then Inr (emit [Free p] (s\<lparr> heap := heap s - {p} \<rparr>))
      else Inl InvalidFree)"

subsection \<open>\<^verbatim>\<open>i2s_slc_queue_next_item\<close>\<close>

text \<open>
  \<^verbatim>\<open>for(i=0;i<i2s_slc_queue_len;i++) i2s_slc_queue[i] = i2s_slc_queue[i+1];\<close>
  with the reads checked against the array's size.
\<close>

function queue_shift :: "nat \<Rightarrow> nat \<Rightarrow> u32 list \<Rightarrow> error + u32 list" where
  "queue_shift i n q =
     (if i < n then
        (if i + 1 < length q then queue_shift (i + 1) n (q[i := q ! (i + 1)])
         else Inl OutOfBounds)
      else Inr q)"
  by pat_completeness auto
termination
  by (relation "measure (\<lambda>(i, n, q). n - i)") auto

declare queue_shift.simps [simp del]

text \<open>
  Pops the front: \<^verbatim>\<open>item = i2s_slc_queue[0]; i2s_slc_queue_len--;\<close> (an 8-bit counter,
  which wraps below zero), then the shift loop. Returns the item and the new state.
\<close>

definition i2s_slc_queue_next_item :: "i2s_state \<Rightarrow> error + (u32 \<times> i2s_state)" where
  "i2s_slc_queue_next_item s =
     (if length (i2s_slc_queue s) = 0 then Inl OutOfBounds
      else
        let item = i2s_slc_queue s ! 0;
            len = i2s_slc_queue_len s - 1
        in case queue_shift 0 (unat len) (i2s_slc_queue s) of
             Inl e \<Rightarrow> Inl e
           | Inr q \<Rightarrow> Inr (item, s\<lparr> i2s_slc_queue := q, i2s_slc_queue_len := len \<rparr>))"

subsection \<open>\<^verbatim>\<open>i2s_slc_isr\<close>\<close>

text \<open>
  The descriptor a pointer refers to: \<^verbatim>\<open>(struct slc_queue_item*)SLCRXEDA\<close> is read through
  only when the address is that of one of the \<open>SLC_BUF_CNT\<close> descriptors.
\<close>

definition item_index :: "platform \<Rightarrow> u32 \<Rightarrow> nat option" where
  "item_index pf a = find (\<lambda>x. item_addr pf x = a) [0, 1, 2, 3]"

definition item_at :: "platform \<Rightarrow> slc_queue_item list \<Rightarrow> u32 \<Rightarrow> slc_queue_item option" where
  "item_at pf items a =
     (case item_index pf a of
        None \<Rightarrow> None
      | Some x \<Rightarrow> (if x < length items then Some (items ! x) else None))"

text \<open>
  One invocation of the handler. \<open>slc_intr_status\<close> is the value read from \<^verbatim>\<open>SLCIS\<close> and
  \<open>slcrxeda\<close> the value read from \<^verbatim>\<open>SLCRXEDA\<close>, both supplied by the hardware. The call
  \<^verbatim>\<open>(*i2s_render)(...)\<close> reads the finished descriptor for its argument and goes through
  the pointer unchecked: with a null callback the handler ends in \<open>NullCallback\<close>, the
  interrupt source still disabled.
\<close>

definition i2s_slc_isr :: "platform \<Rightarrow> u32 \<Rightarrow> u32 \<Rightarrow> i2s_state \<Rightarrow> error + i2s_state" where
  "i2s_slc_isr pf slc_intr_status slcrxeda s =
     (let s1 = emit [RegAssign SLCIC (Lit 0xFFFFFFFF)] s in
      if (slc_intr_status AND SLCIRXEOF pf) \<noteq> 0 then
        (let s2 = emit [ETS_SLC_INTR_DISABLE] s1 in
         case item_at pf (i2s_slc_items s2) slcrxeda of
           None \<Rightarrow> Inl BadDescriptorAddress
         | Some finished_item \<Rightarrow>
             if i2s_render s2 = 0 then Inl NullCallback
             else
               (let s3 = emit [Render (i2s_render s2) (i2s_render_refcon s2)
                                (buf_ptr finished_item) SLC_BUF_LEN] s2
                in (case (if SLC_BUF_CNT - 1 \<le> unat (i2s_slc_queue_len s3)
                          then i2s_slc_queue_next_item s3 else Inr (0, s3)) of
                      Inl e \<Rightarrow> Inl e
                    | Inr (popped, s4) \<Rightarrow>
                        (let i = unat (i2s_slc_queue_len s4);
                             q = list_update (i2s_slc_queue s4) i (buf_ptr finished_item)
                         in if i < length (i2s_slc_queue s4) then
                              Inr (emit [ETS_SLC_INTR_ENABLE]
                                    (s4\<lparr> i2s_slc_queue := q,
                                         i2s_slc_queue_len := i2s_slc_queue_len s4 + 1 \<rparr>))
                            else Inl OutOfBounds))))
      else Inr s1)"

text \<open>A sequence of invocations, each with its pair of register values; stops at an error.\<close>

fun isr_run :: "platform \<Rightarrow> (u32 \<times> u32) list \<Rightarrow> i2s_state \<Rightarrow> error + i2s_state" where
  "isr_run pf [] s = Inr s"
| "isr_run pf ((st, eda) # evs) s =
     (case i2s_slc_isr pf st eda s of
        Inl e \<Rightarrow> Inl e
      | Inr s' \<Rightarrow> isr_run pf evs s')"

subsection \<open>\<^verbatim>\<open>i2s_slc_begin\<close> and \<^verbatim>\<open>i2s_slc_end\<close>\<close>

text \<open>
  The body of the loop over \<open>x\<close>: render into buffer \<open>x\<close>, then fill descriptor \<open>x\<close>.
  \<^verbatim>\<open>(*i2s_render)(...)\<close> calls through the pointer unchecked: a null callback is the error
  \<open>NullCallback\<close>, before the descriptor is touched.
\<close>

definition slc_begin_body :: "platform \<Rightarrow> nat \<Rightarrow> i2s_state \<Rightarrow> error + i2s_state" where
  "slc_begin_body pf x s =
     (let buf_pntr = i2s_slc_buf_pntr s + of_nat (x * SLC_BUF_LEN * 4) in
      if i2s_render s = 0 then Inl NullCallback
      else
        (let s1 = emit [Render (i2s_render s) (i2s_render_refcon s) buf_pntr SLC_BUF_LEN] s
         in Inr (s1\<lparr> i2s_slc_items := (i2s_slc_items s1)[x := (i2s_slc_items s1 ! x)
              \<lparr> unused := 0,
                owner := 1,
                eof := 1,
                sub_sof := 0,
                datalen := of_nat (SLC_BUF_LEN * 4),
                blocksize := of_nat (SLC_BUF_LEN * 4),
                buf_ptr := buf_pntr,
                next_link_ptr := (if x < SLC_BUF_CNT - 1 then item_addr pf (x + 1)
                                  else item_addr pf 0) \<rparr>] \<rparr>)))"

function slc_begin_loop :: "platform \<Rightarrow> nat \<Rightarrow> i2s_state \<Rightarrow> error + i2s_state" where
  "slc_begin_loop pf x s =
     (if x < SLC_BUF_CNT then
        (case slc_begin_body pf x s of
           Inl e \<Rightarrow> Inl e
         | Inr s' \<Rightarrow> slc_begin_loop pf (x + 1) s')
      else Inr s)"
  by pat_completeness auto
termination
  by (relation "measure (\<lambda>(pf, x, s). SLC_BUF_CNT - x)") auto

declare slc_begin_loop.simps [simp del]

text \<open>The register set-up of \<^verbatim>\<open>i2s_slc_begin\<close>, from the statement after the loop on.\<close>

definition slc_begin_setup :: "platform \<Rightarrow> event list" where
  "slc_begin_setup pf =
     [ETS_SLC_INTR_DISABLE,
      RegSet SLCC0 [Macro ''SLCRXLR'', Macro ''SLCTXLR''],
      RegClear SLCC0 [Macro ''SLCRXLR'', Macro ''SLCTXLR''],
      RegAssign SLCIC (Lit 0xFFFFFFFF),
      RegClear SLCC0 [Macro ''SLCMM << SLCM''],
      RegSet SLCC0 [Macro ''1 << SLCM''],
      RegSet SLCRXDC [Macro ''SLCBINR'', Macro ''SLCBTNR''],
      RegClear SLCRXDC [Macro ''SLCBRXFE'', Macro ''SLCBRXEM'', Macro ''SLCBRXFM''],
      RegClear SLCTXL [Macro ''SLCTXLAM << SLCTXLA''],
      RegSet SLCTXL [Shifted (item_addr pf 1) ''SLCTXLA''],
      RegClear SLCRXL [Macro ''SLCRXLAM << SLCRXLA''],
      RegSet SLCRXL [Shifted (item_addr pf 0) ''SLCRXLA''],
      ETS_SLC_INTR_ATTACH,
      RegAssign SLCIE (Lit (SLCIRXEOF pf)),
      ETS_SLC_INTR_ENABLE,
      RegSet SLCTXL [Macro ''SLCTXLS''],
      RegSet SLCRXL [Macro ''SLCRXLS'']]"

text \<open>
  \<open>p\<close> is what \<^verbatim>\<open>malloc(SLC_BUF_LEN * 4 * SLC_BUF_CNT)\<close> answers. The function does not
  look at it: a null answer is stored and used like any other.
\<close>

definition i2s_slc_begin :: "platform \<Rightarrow> u32 \<Rightarrow> i2s_state \<Rightarrow> error + i2s_state" where
  "i2s_slc_begin pf p s =
     (let s1 = s\<lparr> i2s_slc_queue_len := 0 \<rparr>;
          s2 = (malloc_answer (SLC_BUF_LEN * 4 * SLC_BUF_CNT) p s1)\<lparr> i2s_slc_buf_pntr := p \<rparr>
      in case slc_begin_loop pf 0 s2 of
           Inl e \<Rightarrow> Inl e
         | Inr s3 \<Rightarrow> Inr (emit (slc_begin_setup pf) s3))"

definition i2s_slc_end :: "i2s_state \<Rightarrow> i2s_state" where
  "i2s_slc_end s =
     emit
       [ETS_SLC_INTR_DISABLE,
        RegAssign SLCIC (Lit 0xFFFFFFFF),
        RegAssign SLCIE (Lit 0),
        RegClear SLCTXL [Macro ''SLCTXLAM << SLCTXLA''],
        RegClear SLCRXL [Macro ''SLCRXLAM << SLCRXLA'']]
       s"

subsection \<open>\<^verbatim>\<open>i2s_begin\<close> and \<^verbatim>\<open>i2s_end\<close>\<close>

text \<open>\<^verbatim>\<open>I2SC &= ~(I2SRST); I2SC |= I2SRST; I2SC &= ~(I2SRST);\<close>\<close>

definition i2s_reset :: "event list" where
  "i2s_reset =
     [RegClear I2SC [Macro ''I2SRST''], RegSet I2SC [Macro ''I2SRST''],
      RegClear I2SC [Macro ''I2SRST'']]"

text \<open>
  The pin, clock and FIFO set-up of \<^verbatim>\<open>i2s_begin\<close>, between the call of \<^verbatim>\<open>i2s_slc_begin\<close>
  and the rate computation.
\<close>

definition i2s_begin_setup :: "event list" where
  "i2s_begin_setup =
     [PinMode 2 FUNCTION_1, PinMode 3 FUNCTION_1, PinMode 15 FUNCTION_1,
      I2S_CLK_ENABLE,
      RegAssign I2SIC (Lit 0x3F),
      RegAssign I2SIE (Lit 0)]
     @ i2s_reset
     @ [RegClear I2SFC [Macro ''I2SDE'', Macro ''I2STXFMM << I2STXFM'',
                        Macro ''I2SRXFMM << I2SRXFM''],
        RegSet I2SFC [Macro ''I2SDE''],
        RegClear I2SCC [Macro ''I2STXCMM << I2STXCM'', Macro ''I2SRXCMM << I2SRXCM'']]"

text \<open>
  The statements after the rate computation: the dividers, each less one, go to their
  fields of \<^verbatim>\<open>I2SC\<close>, and transmission starts.
\<close>

definition i2s_begin_rate :: "u32 \<Rightarrow> u8 \<Rightarrow> event list" where
  "i2s_begin_rate clock_div bck_div =
     [RegClear I2SC [Macro ''I2STSM'', Macro ''I2SBMM << I2SBM'',
                     Macro ''I2SBDM << I2SBD'', Macro ''I2SCDM << I2SCD''],
      RegSet I2SC [Macro ''I2SRF'', Macro ''I2SMR'', Macro ''I2SRSM'', Macro ''I2SRMS'',
                   Shifted (ucast bck_div - 1) ''I2SBD'',
                   Shifted (clock_div - 1) ''I2SCD''],
      RegSet I2SC [Macro ''I2STXS'']]"

text \<open>
  \<open>render\<close>, \<open>refcon\<close> and \<open>rate\<close> are the arguments, \<open>p\<close> is the allocator's answer inside
  \<^verbatim>\<open>i2s_slc_begin\<close>. The function returns nothing; it fails where \<^verbatim>\<open>i2s_slc_begin\<close> calls
  through a null callback and where an unchecked division traps.
\<close>

definition i2s_begin ::
  "platform \<Rightarrow> u32 \<Rightarrow> u32 \<Rightarrow> u32 \<Rightarrow> u32 \<Rightarrow> i2s_state \<Rightarrow> error + i2s_state" where
  "i2s_begin pf render refcon rate p s =
     (let s1 = s\<lparr> i2s_render := render, i2s_render_refcon := refcon \<rparr> in
      case i2s_slc_begin pf p s1 of
        Inl e \<Rightarrow> Inl e
      | Inr s2 \<Rightarrow>
          (let s3 = emit i2s_begin_setup s2 in
           case i2s_dividers pf rate of
             Inl e \<Rightarrow> Inl e
           | Inr (clock_div, bck_div) \<Rightarrow>
               Inr (emit (i2s_begin_rate clock_div bck_div) s3)))"

text \<open>
  \<^verbatim>\<open>if (i2s_slc_buf_pntr) free(i2s_slc_buf_pntr);\<close> The pointer is not reset afterwards.
\<close>

definition i2s_end :: "i2s_state \<Rightarrow> error + i2s_state" where
  "i2s_end s =
     (let s1 = emit [I2S_CLK_DISABLE] s;
          s2 = i2s_slc_end s1
      in case (if i2s_slc_buf_pntr s2 \<noteq> 0 then free_block (i2s_slc_buf_pntr s2) s2
               else Inr s2) of
           Inl e \<Rightarrow> Inl e
         | Inr s3 \<Rightarrow>
             Inr (emit (i2s_reset @ [PinMode 2 INPUT, PinMode 3 FUNCTION_0, PinMode 15 INPUT])
                   s3))"

subsection \<open>Observations\<close>

text \<open>The entries of the queue: the first \<open>i2s_slc_queue_len\<close> cells of the array, oldest first.\<close>

definition guard_entries :: "i2s_state \<Rightarrow> u32 list" where
  "guard_entries s = take (unat (i2s_slc_queue_len s)) (i2s_slc_queue s)"

fun is_render :: "event \<Rightarrow> bool" where
  "is_render (Render f r b n) = True"
| "is_render e = False"

text \<open>How often the render callback has been called.\<close>

definition renders :: "event list \<Rightarrow> nat" where
  "renders tr = length (filter is_render tr)"

text \<open>
  A completion event, as the hardware raises it: the RX end-of-frame bit is set in the
  status and \<^verbatim>\<open>SLCRXEDA\<close> holds the address of one of the descriptors.
\<close>

definition completion :: "platform \<Rightarrow> u32 \<times> u32 \<Rightarrow> bool" where
  "completion pf ev = ((fst ev AND SLCIRXEOF pf) \<noteq> 0 \<and> item_index pf (snd ev) \<noteq> None)"

text \<open>
  What a reader of the ring does: \<open>n\<close> times, go from the descriptor at an address to the
  address in its \<^verbatim>\<open>next_link_ptr\<close>. \<open>None\<close> when an address on the way is no descriptor.
\<close>

fun follow_links :: "platform \<Rightarrow> slc_queue_item list \<Rightarrow> nat \<Rightarrow> u32 \<Rightarrow> u32 option" where
  "follow_links pf items 0 a = Some a"
| "follow_links pf items (Suc n) a =
     (case item_at pf items a of
        None \<Rightarrow> None
      | Some it \<Rightarrow> follow_links pf items n (next_link_ptr it))"

text \<open>The descriptor the loop of \<^verbatim>\<open>i2s_slc_begin\<close> leaves at index \<open>x\<close> for a pool at \<open>p\<close>.\<close>

definition filled_item :: "platform \<Rightarrow> u32 \<Rightarrow> nat \<Rightarrow> slc_queue_item" where
  "filled_item pf p x =
     \<lparr> blocksize = 256, datalen = 256, unused = 0, sub_sof = 0, eof = 1, owner = 1,
       buf_ptr = p + of_nat (x * 256),
       next_link_ptr = item_addr pf (if x < 3 then x + 1 else 0) \<rparr>"

text \<open>The events a state's trace has gained since an earlier state.\<close>

definition events_since :: "i2s_state \<Rightarrow> i2s_state \<Rightarrow> event list" where
  "events_since s s' = drop (length (trace s)) (trace s')"

text \<open>What a call that started in \<open>s\<close> did, in order, or the error it ended with.\<close>

definition run_events :: "i2s_state \<Rightarrow> error + i2s_state \<Rightarrow> error + event list" where
  "run_events s r = map_sum id (events_since s) r"

text \<open>
  A session for evaluation: on the platform above, from the initial state,
  \<^verbatim>\<open>i2s_begin(render, refcon, 16000)\<close> with the callback at \<open>0x40100000\<close>, its context at
  \<open>0x3FFF8000\<close> and \<^verbatim>\<open>malloc\<close> answering \<open>0x3FFF0000\<close>; then \<^verbatim>\<open>i2s_end()\<close>.
\<close>

definition started :: i2s_state where
  "started =
     (case i2s_begin esp8266 0x40100000 0x3FFF8000 16000 0x3FFF0000 init_state of
        Inl e \<Rightarrow> init_state
      | Inr s \<Rightarrow> s)"

definition stopped :: i2s_state where
  "stopped = (case i2s_end started of Inl e \<Rightarrow> started | Inr s \<Rightarrow> s)"

text \<open>The same start with \<^verbatim>\<open>malloc\<close> answering null.\<close>

definition started_null :: i2s_state where
  "started_null =
     (case i2s_begin esp8266 0x40100000 0x3FFF8000 16000 0 init_state of
        Inl e \<Rightarrow> init_state
      | Inr s \<Rightarrow> s)"

section \<open>Helper lemmas\<close>

lemma length4: "length xs = 4 \<Longrightarrow> \<exists>a b c d. xs = [a, b, c, d]"
  by (auto simp: length_Suc_conv eval_nat_numeral)

lemma length3: "length xs = 3 \<Longrightarrow> \<exists>a b c. xs = [a, b, c]"
  by (auto simp: length_Suc_conv eval_nat_numeral)

lemma lt4_cases: "x < 4 \<Longrightarrow> x = 0 \<or> x = 1 \<or> x = 2 \<or> x = (3 :: nat)"
  by arith

lemma u8_le3_cases: "unat (l :: u8) \<le> 3 \<Longrightarrow> l = 0 \<or> l = 1 \<or> l = 2 \<or> l = 3"
proof -
  assume "unat l \<le> 3"
  then have "unat l = 0 \<or> unat l = 1 \<or> unat l = 2 \<or> unat l = 3" by arith
  then show ?thesis
    by (auto simp: word_unat_eq_iff)
qed

lemma unat_ucast_u8_le: "unat (ucast (w :: u32) :: u8) \<le> unat w"
  by (simp add: unsigned_ucast_eq take_bit_eq_mod)

subsection \<open>The loop of i2s_slc_begin\<close>

lemma item_fill:
  "(r :: slc_queue_item)\<lparr> unused := u, owner := ow, eof := e, sub_sof := ss, datalen := d,
      blocksize := b, buf_ptr := bp, next_link_ptr := nl \<rparr> =
   \<lparr> blocksize = b, datalen = d, unused = u, sub_sof = ss, eof = e, owner = ow,
     buf_ptr = bp, next_link_ptr = nl \<rparr>"
  by (cases r) simp

lemma slc_begin_body_null: "i2s_render s = 0 \<Longrightarrow> slc_begin_body pf x s = Inl NullCallback"
  by (simp add: slc_begin_body_def)

lemma slc_begin_body_Inr:
  "i2s_render s \<noteq> 0 \<Longrightarrow>
   slc_begin_body pf x s =
     Inr (s\<lparr> trace := trace s @
                [Render (i2s_render s) (i2s_render_refcon s)
                   (i2s_slc_buf_pntr s + of_nat (x * SLC_BUF_LEN * 4)) SLC_BUF_LEN],
            i2s_slc_items := (i2s_slc_items s)[x := filled_item pf (i2s_slc_buf_pntr s) x] \<rparr>)"
  by (simp add: slc_begin_body_def Let_def emit_def filled_item_def SLC_BUF_LEN_def
      SLC_BUF_CNT_def item_fill mult.commute)

lemma slc_begin_loop_steps:
  "slc_begin_loop pf 0 t =
     (case slc_begin_body pf 0 t of Inl e \<Rightarrow> Inl e | Inr t' \<Rightarrow> slc_begin_loop pf (Suc 0) t')"
  "slc_begin_loop pf (Suc 0) t =
     (case slc_begin_body pf (Suc 0) t of Inl e \<Rightarrow> Inl e | Inr t' \<Rightarrow> slc_begin_loop pf 2 t')"
  "slc_begin_loop pf 2 t =
     (case slc_begin_body pf 2 t of Inl e \<Rightarrow> Inl e | Inr t' \<Rightarrow> slc_begin_loop pf 3 t')"
  "slc_begin_loop pf 3 t =
     (case slc_begin_body pf 3 t of Inl e \<Rightarrow> Inl e | Inr t' \<Rightarrow> slc_begin_loop pf 4 t')"
  "slc_begin_loop pf 4 t = Inr t"
proof -
  show "slc_begin_loop pf 0 t =
     (case slc_begin_body pf 0 t of Inl e \<Rightarrow> Inl e | Inr t' \<Rightarrow> slc_begin_loop pf (Suc 0) t')"
    by (subst slc_begin_loop.simps) (simp add: SLC_BUF_CNT_def cong: sum.case_cong)
  show "slc_begin_loop pf (Suc 0) t =
     (case slc_begin_body pf (Suc 0) t of Inl e \<Rightarrow> Inl e | Inr t' \<Rightarrow> slc_begin_loop pf 2 t')"
    by (subst slc_begin_loop.simps) (simp add: SLC_BUF_CNT_def numeral_2_eq_2 cong: sum.case_cong)
  show "slc_begin_loop pf 2 t =
     (case slc_begin_body pf 2 t of Inl e \<Rightarrow> Inl e | Inr t' \<Rightarrow> slc_begin_loop pf 3 t')"
    by (subst slc_begin_loop.simps) (simp add: SLC_BUF_CNT_def cong: sum.case_cong)
  show "slc_begin_loop pf 3 t =
     (case slc_begin_body pf 3 t of Inl e \<Rightarrow> Inl e | Inr t' \<Rightarrow> slc_begin_loop pf 4 t')"
    by (subst slc_begin_loop.simps) (simp add: SLC_BUF_CNT_def cong: sum.case_cong)
  show "slc_begin_loop pf 4 t = Inr t"
    by (subst slc_begin_loop.simps) (simp add: SLC_BUF_CNT_def)
qed

lemma slc_begin_loop_null: "i2s_render s = 0 \<Longrightarrow> slc_begin_loop pf 0 s = Inl NullCallback"
  by (simp add: slc_begin_loop_steps(1) slc_begin_body_null)

lemma slc_begin_loop_Inr:
  assumes "i2s_render s \<noteq> 0"
  shows "slc_begin_loop pf 0 s =
     Inr (s\<lparr> trace := trace s @
                map (\<lambda>x. Render (i2s_render s) (i2s_render_refcon s)
                            (i2s_slc_buf_pntr s + of_nat (x * SLC_BUF_LEN * 4)) SLC_BUF_LEN)
                  [0, 1, 2, 3],
            i2s_slc_items := (i2s_slc_items s)
              [0 := filled_item pf (i2s_slc_buf_pntr s) 0,
               1 := filled_item pf (i2s_slc_buf_pntr s) 1,
               2 := filled_item pf (i2s_slc_buf_pntr s) 2,
               3 := filled_item pf (i2s_slc_buf_pntr s) 3] \<rparr>)"
  using assms
  by (simp add: slc_begin_loop_steps slc_begin_body_Inr)

lemma i2s_slc_begin_null:
  "i2s_render s = 0 \<Longrightarrow> i2s_slc_begin pf p s = Inl NullCallback"
  by (simp add: i2s_slc_begin_def Let_def malloc_answer_def emit_def slc_begin_loop_null)

lemma i2s_slc_begin_Inr:
  assumes "i2s_render s \<noteq> 0"
  shows "\<exists>s'. i2s_slc_begin pf p s = Inr s' \<and>
    i2s_slc_buf_pntr s' = p \<and>
    i2s_slc_queue s' = i2s_slc_queue s \<and>
    i2s_slc_queue_len s' = 0 \<and>
    i2s_render s' = i2s_render s \<and>
    i2s_render_refcon s' = i2s_render_refcon s \<and>
    heap s' = (if p = 0 then heap s else insert p (heap s)) \<and>
    i2s_slc_items s' =
      (i2s_slc_items s)[0 := filled_item pf p 0, 1 := filled_item pf p 1,
                         2 := filled_item pf p 2, 3 := filled_item pf p 3] \<and>
    trace s' = trace s @
      Malloc (SLC_BUF_LEN * 4 * SLC_BUF_CNT) p #
      map (\<lambda>x. Render (i2s_render s) (i2s_render_refcon s)
                  (p + of_nat (x * SLC_BUF_LEN * 4)) SLC_BUF_LEN) [0, 1, 2, 3]
      @ slc_begin_setup pf"
  using assms
  by (simp add: i2s_slc_begin_def Let_def malloc_answer_def emit_def slc_begin_loop_Inr)

lemma i2s_slc_begin_InrD:
  "i2s_slc_begin pf p s = Inr s' \<Longrightarrow> i2s_render s \<noteq> 0"
  using i2s_slc_begin_null [of s pf p] by auto

lemma ring_of_four:
  "length xs = 4 \<Longrightarrow> xs[0 := a, 1 := b, 2 := c, 3 := d] = [a, b, c, d]"
  using length4 [of xs] by auto

lemma no_render_setup:
  "filter is_render (slc_begin_setup pf) = []"
  "filter is_render i2s_begin_setup = []"
  "filter is_render (i2s_begin_rate cd bd) = []"
  by (simp_all add: slc_begin_setup_def i2s_begin_setup_def i2s_begin_rate_def i2s_reset_def)

subsection \<open>i2s_begin\<close>

lemma i2s_begin_null: "i2s_begin pf 0 refcon rate p s = Inl NullCallback"
  by (simp add: i2s_begin_def Let_def i2s_slc_begin_null)

text \<open>What a start that returns has done, field by field.\<close>

lemma i2s_begin_Inr:
  assumes "i2s_begin pf render refcon rate p s = Inr s1"
  shows "\<exists>cd bd. render \<noteq> 0 \<and> i2s_dividers pf rate = Inr (cd, bd) \<and>
    i2s_slc_buf_pntr s1 = p \<and>
    i2s_slc_queue s1 = i2s_slc_queue s \<and>
    i2s_slc_queue_len s1 = 0 \<and>
    i2s_render s1 = render \<and>
    i2s_render_refcon s1 = refcon \<and>
    heap s1 = (if p = 0 then heap s else insert p (heap s)) \<and>
    i2s_slc_items s1 =
      (i2s_slc_items s)[0 := filled_item pf p 0, 1 := filled_item pf p 1,
                         2 := filled_item pf p 2, 3 := filled_item pf p 3] \<and>
    trace s1 = trace s @
      Malloc (SLC_BUF_LEN * 4 * SLC_BUF_CNT) p #
      map (\<lambda>x. Render render refcon (p + of_nat (x * SLC_BUF_LEN * 4)) SLC_BUF_LEN)
        [0, 1, 2, 3]
      @ slc_begin_setup pf @ i2s_begin_setup @ i2s_begin_rate cd bd"
proof -
  let ?s0 = "s\<lparr> i2s_render := render, i2s_render_refcon := refcon \<rparr>"
  from assms obtain s2 where s2: "i2s_slc_begin pf p ?s0 = Inr s2"
    by (auto simp: i2s_begin_def Let_def split: sum.splits)
  then have r: "render \<noteq> 0"
    using i2s_slc_begin_InrD [OF s2] by simp
  from assms s2 obtain cd bd where d: "i2s_dividers pf rate = Inr (cd, bd)"
    and s1: "s1 = emit (i2s_begin_rate cd bd) (emit i2s_begin_setup s2)"
    by (auto simp: i2s_begin_def Let_def split: sum.splits prod.splits)
  have "i2s_render ?s0 \<noteq> 0"
    using r by simp
  from i2s_slc_begin_Inr [OF this, of pf p] s2 r d show ?thesis
    unfolding s1 by (auto simp: emit_def)
qed

lemma i2s_begin_ok:
  assumes "render \<noteq> 0" and "i2s_dividers pf rate = Inr (cd, bd)"
  shows "\<exists>s1. i2s_begin pf render refcon rate p s = Inr s1"
proof -
  have "i2s_render (s\<lparr> i2s_render := render, i2s_render_refcon := refcon \<rparr>) \<noteq> 0"
    using assms(1) by simp
  from i2s_slc_begin_Inr [OF this, of pf p] assms(2) show ?thesis
    by (auto simp: i2s_begin_def Let_def)
qed

lemma i2s_begin_fields:
  assumes "i2s_begin pf render refcon rate p s = Inr s1"
  shows "i2s_slc_queue s1 = i2s_slc_queue s"
    and "i2s_slc_queue_len s1 = 0"
    and "i2s_slc_buf_pntr s1 = p"
    and "i2s_slc_items s1 =
      (i2s_slc_items s)[0 := filled_item pf p 0, 1 := filled_item pf p 1,
                         2 := filled_item pf p 2, 3 := filled_item pf p 3]"
    and "i2s_render s1 = render" and "i2s_render_refcon s1 = refcon"
    and "heap s1 = (if p = 0 then heap s else insert p (heap s))"
    and "render \<noteq> 0"
  using i2s_begin_Inr [OF assms] by blast+

lemma i2s_begin_ring:
  assumes "wf_state s" and "i2s_begin pf render refcon rate p s = Inr s1"
  shows "i2s_slc_items s1 =
    [filled_item pf p 0, filled_item pf p 1, filled_item pf p 2, filled_item pf p 3]"
  using assms(1) i2s_begin_fields(4) [OF assms(2)] ring_of_four [of "i2s_slc_items s"]
  by (simp add: wf_state_def SLC_BUF_CNT_def)

lemma i2s_begin_trace:
  assumes "i2s_begin pf render refcon rate p s = Inr s1"
  shows "\<exists>new. trace s1 = trace s @ new \<and>
           filter is_render new =
             map (\<lambda>x. Render render refcon (p + of_nat (x * SLC_BUF_LEN * 4)) SLC_BUF_LEN)
               [0, 1, 2, 3]"
proof -
  from i2s_begin_Inr [OF assms] obtain cd bd where
    "trace s1 = trace s @
      Malloc (SLC_BUF_LEN * 4 * SLC_BUF_CNT) p #
      map (\<lambda>x. Render render refcon (p + of_nat (x * SLC_BUF_LEN * 4)) SLC_BUF_LEN)
        [0, 1, 2, 3]
      @ slc_begin_setup pf @ i2s_begin_setup @ i2s_begin_rate cd bd"
    by blast
  then show ?thesis
    by (simp add: no_render_setup)
qed

lemma i2s_begin_trace_full:
  assumes start: "i2s_begin pf render refcon rate p s = Inr s1"
    and d: "i2s_dividers pf rate = Inr (cd, bd)"
  shows "trace s1 = trace s @
     Malloc (SLC_BUF_LEN * 4 * SLC_BUF_CNT) p #
     map (\<lambda>x. Render render refcon (p + of_nat (x * SLC_BUF_LEN * 4)) SLC_BUF_LEN) [0, 1, 2, 3]
     @ slc_begin_setup pf @ i2s_begin_setup @ i2s_begin_rate cd bd"
  using i2s_begin_Inr [OF start] d by auto

lemma i2s_begin_wf:
  "wf_state s \<Longrightarrow> i2s_begin pf render refcon rate p s = Inr s1 \<Longrightarrow> wf_state s1"
  by (simp add: wf_state_def i2s_begin_fields)

subsection \<open>Descriptor addresses\<close>

lemma item_index_item_addr: "x < 4 \<Longrightarrow> item_index pf (item_addr pf x) = Some x"
  by (auto dest!: lt4_cases simp: item_index_def item_addr_def sizeof_slc_queue_item_def)

lemma item_index_SomeD: "item_index pf a = Some x \<Longrightarrow> x < 4 \<and> a = item_addr pf x"
  by (auto simp: item_index_def split: if_splits)

lemma item_at_item_addr:
  "x < 4 \<Longrightarrow> length items = 4 \<Longrightarrow> item_at pf items (item_addr pf x) = Some (items ! x)"
  by (simp add: item_at_def item_index_item_addr)

subsection \<open>The handler\<close>

lemma queue_shift_pop3: "queue_shift 0 2 [a, b, c] = Inr [b, c, c]"
  by (simp add: queue_shift.simps)

lemma isr_rxeof:
  assumes wf: "wf_state s" and le: "unat (i2s_slc_queue_len s) \<le> 3" and x: "x < 4"
    and st: "(st AND SLCIRXEOF pf) \<noteq> 0" and cb: "i2s_render s \<noteq> 0"
  shows "\<exists>s'. i2s_slc_isr pf st (item_addr pf x) s = Inr s' \<and> wf_state s' \<and>
     i2s_slc_items s' = i2s_slc_items s \<and>
     i2s_slc_buf_pntr s' = i2s_slc_buf_pntr s \<and>
     i2s_render s' = i2s_render s \<and> i2s_render_refcon s' = i2s_render_refcon s \<and>
     heap s' = heap s \<and>
     unat (i2s_slc_queue_len s') = min 3 (unat (i2s_slc_queue_len s) + 1) \<and>
     guard_entries s' =
       (if unat (i2s_slc_queue_len s) = 3 then tl (guard_entries s) else guard_entries s)
       @ [buf_ptr (i2s_slc_items s ! x)] \<and>
     trace s' = trace s @
       [RegAssign SLCIC (Lit 0xFFFFFFFF), ETS_SLC_INTR_DISABLE,
        Render (i2s_render s) (i2s_render_refcon s) (buf_ptr (i2s_slc_items s ! x)) SLC_BUF_LEN,
        ETS_SLC_INTR_ENABLE]"
proof -
  from wf obtain a b c where q: "i2s_slc_queue s = [a, b, c]"
    using length3 [of "i2s_slc_queue s"] by (auto simp: wf_state_def SLC_BUF_CNT_def)
  from wf have li: "length (i2s_slc_items s) = 4"
    by (simp add: wf_state_def SLC_BUF_CNT_def)
  have it: "item_at pf (i2s_slc_items s) (item_addr pf x) = Some (i2s_slc_items s ! x)"
    using x li by (rule item_at_item_addr)
  from le consider "i2s_slc_queue_len s = 0" | "i2s_slc_queue_len s = 1"
    | "i2s_slc_queue_len s = 2" | "i2s_slc_queue_len s = 3"
    using u8_le3_cases by blast
  then show ?thesis
  proof cases
    case 1
    then show ?thesis
      using st q li it cb
      by (simp add: i2s_slc_isr_def Let_def emit_def SLC_BUF_CNT_def wf_state_def guard_entries_def)
  next
    case 2
    then show ?thesis
      using st q li it cb
      by (simp add: i2s_slc_isr_def Let_def emit_def SLC_BUF_CNT_def wf_state_def guard_entries_def)
  next
    case 3
    then show ?thesis
      using st q li it cb
      by (simp add: i2s_slc_isr_def Let_def emit_def SLC_BUF_CNT_def wf_state_def guard_entries_def)
  next
    case 4
    then show ?thesis
      using st q li it cb
      by (simp add: i2s_slc_isr_def Let_def emit_def SLC_BUF_CNT_def wf_state_def guard_entries_def
          i2s_slc_queue_next_item_def queue_shift_pop3)
  qed
qed

lemma isr_no_rxeof:
  "(st AND SLCIRXEOF pf) = 0 \<Longrightarrow>
   i2s_slc_isr pf st eda s = Inr (emit [RegAssign SLCIC (Lit 0xFFFFFFFF)] s)"
  by (simp add: i2s_slc_isr_def Let_def)

lemma isr_null_callback:
  assumes "wf_state s" and "x < 4" and "(st AND SLCIRXEOF pf) \<noteq> 0" and "i2s_render s = 0"
  shows "i2s_slc_isr pf st (item_addr pf x) s = Inl NullCallback"
proof -
  from assms(1) have "length (i2s_slc_items s) = 4"
    by (simp add: wf_state_def SLC_BUF_CNT_def)
  with assms(2) have "item_at pf (i2s_slc_items s) (item_addr pf x) = Some (i2s_slc_items s ! x)"
    by (rule item_at_item_addr)
  with assms(3,4) show ?thesis
    by (simp add: i2s_slc_isr_def Let_def emit_def)
qed

lemma isr_completion:
  assumes "wf_state s" and "unat (i2s_slc_queue_len s) \<le> 3" and "completion pf ev"
    and "i2s_render s \<noteq> 0"
  shows "\<exists>s'. i2s_slc_isr pf (fst ev) (snd ev) s = Inr s' \<and> wf_state s' \<and>
     unat (i2s_slc_queue_len s') \<le> 3 \<and> i2s_slc_items s' = i2s_slc_items s \<and>
     i2s_render s' = i2s_render s \<and> i2s_render_refcon s' = i2s_render_refcon s \<and>
     renders (trace s') = renders (trace s) + 1"
proof -
  from assms(3) obtain x where x: "x < 4" "snd ev = item_addr pf x"
    and st: "(fst ev AND SLCIRXEOF pf) \<noteq> 0"
    by (auto simp: completion_def dest: item_index_SomeD)
  from isr_rxeof [OF assms(1,2) x(1) st assms(4)] x(2) show ?thesis
    by (auto simp: renders_def)
qed

lemma isr_run_completions:
  "wf_state s \<Longrightarrow> unat (i2s_slc_queue_len s) \<le> 3 \<Longrightarrow> i2s_render s \<noteq> 0 \<Longrightarrow>
   list_all (completion pf) evs \<Longrightarrow>
   \<exists>s'. isr_run pf evs s = Inr s' \<and> wf_state s' \<and> unat (i2s_slc_queue_len s') \<le> 3 \<and>
        i2s_slc_items s' = i2s_slc_items s \<and>
        i2s_render s' = i2s_render s \<and> i2s_render_refcon s' = i2s_render_refcon s \<and>
        renders (trace s') = renders (trace s) + length evs"
proof (induction evs arbitrary: s)
  case Nil
  then show ?case by simp
next
  case (Cons ev evs)
  obtain st eda where ev: "ev = (st, eda)" by (cases ev)
  from Cons.prems have c: "completion pf ev" and cs: "list_all (completion pf) evs"
    by simp_all
  from isr_completion [OF Cons.prems(1,2) c Cons.prems(3)] ev obtain s1 where
    s1: "i2s_slc_isr pf st eda s = Inr s1" "wf_state s1" "unat (i2s_slc_queue_len s1) \<le> 3"
      "i2s_slc_items s1 = i2s_slc_items s" "i2s_render s1 = i2s_render s"
      "i2s_render_refcon s1 = i2s_render_refcon s"
      "renders (trace s1) = renders (trace s) + 1"
    by auto
  from s1(5) Cons.prems(3) have cb1: "i2s_render s1 \<noteq> 0"
    by simp
  from Cons.IH [OF s1(2,3) cb1 cs] obtain s' where
    "isr_run pf evs s1 = Inr s'" "wf_state s'" "unat (i2s_slc_queue_len s') \<le> 3"
    "i2s_slc_items s' = i2s_slc_items s1" "i2s_render s' = i2s_render s1"
    "i2s_render_refcon s' = i2s_render_refcon s1"
    "renders (trace s') = renders (trace s1) + length evs"
    by auto
  with s1 ev show ?case by simp
qed

subsection \<open>The evaluation session\<close>

lemma dividers_16000: "i2s_dividers esp8266 16000 = Inr (56, 25)"
  by (simp add: i2s_dividers_def i2s_clock_div_def i2s_bck_div_def esp8266_def)

lemma wf_init: "wf_state init_state"
  by (simp add: wf_state_def init_state_def SLC_BUF_CNT_def)

lemma started_eq:
  "i2s_begin esp8266 0x40100000 0x3FFF8000 16000 0x3FFF0000 init_state = Inr started"
proof -
  have "(0x40100000 :: u32) \<noteq> 0" by simp
  from i2s_begin_ok [OF this dividers_16000] obtain s1 where
    "i2s_begin esp8266 0x40100000 0x3FFF8000 16000 0x3FFF0000 init_state = Inr s1"
    by blast
  then show ?thesis
    by (simp add: started_def)
qed

lemma started_null_eq:
  "i2s_begin esp8266 0x40100000 0x3FFF8000 16000 0 init_state = Inr started_null"
proof -
  have "(0x40100000 :: u32) \<noteq> 0" by simp
  from i2s_begin_ok [OF this dividers_16000] obtain s1 where
    "i2s_begin esp8266 0x40100000 0x3FFF8000 16000 0 init_state = Inr s1"
    by blast
  then show ?thesis
    by (simp add: started_null_def)
qed

lemma wf_started: "wf_state started"
  using wf_init started_eq by (rule i2s_begin_wf)

lemma started_pool: "i2s_slc_buf_pntr started = 0x3FFF0000" "heap started = {0x3FFF0000}"
  using i2s_begin_fields(3,7) [OF started_eq] by (simp_all add: init_state_def)

lemma events_since_emit [simp]: "events_since s (emit es s) = es"
  by (simp add: events_since_def emit_def)

lemma events_since_append: "trace s' = trace s @ new \<Longrightarrow> events_since s s' = new"
  by (simp add: events_since_def)

subsection \<open>\<^verbatim>\<open>i2s_end\<close>\<close>

lemma i2s_end_trace:
  assumes "i2s_slc_buf_pntr s = 0 \<or> i2s_slc_buf_pntr s \<in> heap s"
  shows "\<exists>s'. i2s_end s = Inr s' \<and>
    i2s_slc_buf_pntr s' = i2s_slc_buf_pntr s \<and>
    heap s' = (if i2s_slc_buf_pntr s = 0 then heap s else heap s - {i2s_slc_buf_pntr s}) \<and>
    trace s' = trace s @
      [I2S_CLK_DISABLE, ETS_SLC_INTR_DISABLE, RegAssign SLCIC (Lit 0xFFFFFFFF),
        RegAssign SLCIE (Lit 0), RegClear SLCTXL [Macro ''SLCTXLAM << SLCTXLA''],
        RegClear SLCRXL [Macro ''SLCRXLAM << SLCRXLA'']]
      @ (if i2s_slc_buf_pntr s \<noteq> 0 then [Free (i2s_slc_buf_pntr s)] else [])
      @ i2s_reset @ [PinMode 2 INPUT, PinMode 3 FUNCTION_0, PinMode 15 INPUT]"
  using assms
  by (auto simp: i2s_end_def Let_def i2s_slc_end_def emit_def free_block_def)

lemma i2s_end_started: "\<exists>s'. i2s_end started = Inr s' \<and>
    i2s_slc_buf_pntr s' = 0x3FFF0000 \<and> heap s' = {} \<and>
    trace s' = trace started @
      [I2S_CLK_DISABLE, ETS_SLC_INTR_DISABLE, RegAssign SLCIC (Lit 0xFFFFFFFF),
        RegAssign SLCIE (Lit 0), RegClear SLCTXL [Macro ''SLCTXLAM << SLCTXLA''],
        RegClear SLCRXL [Macro ''SLCRXLAM << SLCRXLA''], Free 0x3FFF0000]
      @ i2s_reset @ [PinMode 2 INPUT, PinMode 3 FUNCTION_0, PinMode 15 INPUT]"
proof -
  have "i2s_slc_buf_pntr started = 0 \<or> i2s_slc_buf_pntr started \<in> heap started"
    by (simp add: started_pool)
  from i2s_end_trace [OF this] show ?thesis
    by (simp add: started_pool)
qed

lemma stopped_eq: "i2s_end started = Inr stopped"
  using i2s_end_started by (auto simp: stopped_def)

lemma stopped_pool: "i2s_slc_buf_pntr stopped = 0x3FFF0000" "heap stopped = {}"
  using i2s_end_started stopped_eq by auto

subsection \<open>The ring and the pool\<close>

lemma item_addr_inj: "x < 4 \<Longrightarrow> y < 4 \<Longrightarrow> item_addr pf x = item_addr pf y \<Longrightarrow> x = y"
proof -
  assume x: "x < 4" and y: "y < 4" and e: "item_addr pf x = item_addr pf y"
  have "Some x = item_index pf (item_addr pf x)"
    using x by (simp add: item_index_item_addr)
  also have "\<dots> = Some y"
    unfolding e using y by (simp add: item_index_item_addr)
  finally show "x = y" by simp
qed

lemma next_link_filled:
  "next_link_ptr (filled_item pf p x) = item_addr pf (if x < 3 then x + 1 else 0)"
  by (simp add: filled_item_def)

lemma ring_step:
  assumes "x < 4"
  shows "item_at pf [filled_item pf p 0, filled_item pf p 1, filled_item pf p 2, filled_item pf p 3]
           (item_addr pf x) = Some (filled_item pf p x)"
  using assms by (auto dest!: lt4_cases simp: item_at_item_addr)

lemma follow_ring:
  "x < 4 \<Longrightarrow>
   follow_links pf [filled_item pf p 0, filled_item pf p 1, filled_item pf p 2, filled_item pf p 3]
     k (item_addr pf x) = Some (item_addr pf ((x + k) mod 4))"
proof (induction k arbitrary: x)
  case 0
  then show ?case by simp
next
  case (Suc k)
  let ?ring = "[filled_item pf p 0, filled_item pf p 1, filled_item pf p 2, filled_item pf p 3]"
  let ?y = "if x < 3 then x + 1 else 0"
  from Suc.prems have y: "?y < 4" by simp
  have m: "(?y + k) mod 4 = (x + Suc k) mod 4"
  proof (cases "x < 3")
    case True
    then show ?thesis by simp
  next
    case False
    with Suc.prems have x3: "x = 3" by simp
    have "3 + Suc k = k + 4" by simp
    with x3 show ?thesis by (simp del: add_Suc_right)
  qed
  have "follow_links pf ?ring (Suc k) (item_addr pf x) =
          follow_links pf ?ring k (next_link_ptr (filled_item pf p x))"
    by (simp only: follow_links.simps ring_step [OF Suc.prems] option.case)
  also have "\<dots> = follow_links pf ?ring k (item_addr pf ?y)"
    by (simp only: next_link_filled)
  also have "\<dots> = Some (item_addr pf ((?y + k) mod 4))"
    by (rule Suc.IH [OF y])
  also have "\<dots> = Some (item_addr pf ((x + Suc k) mod 4))"
    by (simp only: m)
  finally show ?case .
qed

lemma pool_slot_nonnull:
  assumes "p \<noteq> 0" and "unat p + 1024 \<le> 2 ^ 32" and "x < 4"
  shows "p + of_nat (x * 256) \<noteq> (0 :: u32)"
proof -
  from assms(3) have k: "unat (of_nat (x * 256) :: u32) = x * 256"
    by (auto dest!: lt4_cases)
  with assms(2,3) have "unat p + unat (of_nat (x * 256) :: u32) < 2 ^ LENGTH(32)"
    by simp
  then have "unat (p + of_nat (x * 256)) = unat p + unat (of_nat (x * 256) :: u32)"
    by (simp only: unat_add_lem)
  moreover from assms(1) have "0 < unat p"
    by (simp add: unat_gt_0)
  ultimately have "0 < unat (p + of_nat (x * 256))"
    by simp
  then show ?thesis
    by (simp add: unat_gt_0)
qed

subsection \<open>The evaluation session, running\<close>

lemma started_fields:
  "i2s_slc_queue started = [0, 0, 0]"
  "i2s_slc_queue_len started = 0"
  "i2s_render started = 0x40100000"
  "i2s_render_refcon started = 0x3FFF8000"
  "i2s_slc_items started =
     [filled_item esp8266 0x3FFF0000 0, filled_item esp8266 0x3FFF0000 1,
      filled_item esp8266 0x3FFF0000 2, filled_item esp8266 0x3FFF0000 3]"
  using i2s_begin_fields [OF started_eq] i2s_begin_ring [OF wf_init started_eq]
  by (simp_all add: init_state_def)

lemma started_buffers:
  "map buf_ptr (i2s_slc_items started) = [0x3FFF0000, 0x3FFF0100, 0x3FFF0200, 0x3FFF0300]"
  by (simp add: started_fields filled_item_def)

lemma completion_esp8266: "x < 4 \<Longrightarrow> completion esp8266 (0x10000, item_addr esp8266 x)"
  by (simp add: completion_def item_index_item_addr) (simp add: esp8266_def)

lemma rxeof_esp8266: "((0x10000 :: u32) AND SLCIRXEOF esp8266) \<noteq> 0"
  by (simp add: esp8266_def)

lemma isr_step:
  assumes "wf_state s" and "unat (i2s_slc_queue_len s) \<le> 3" and "x < 4"
    and "(st AND SLCIRXEOF pf) \<noteq> 0" and "i2s_render s \<noteq> 0"
  obtains s' where "i2s_slc_isr pf st (item_addr pf x) s = Inr s'" and "wf_state s'"
    and "i2s_slc_items s' = i2s_slc_items s" and "i2s_render s' = i2s_render s"
    and "unat (i2s_slc_queue_len s') = min 3 (unat (i2s_slc_queue_len s) + 1)"
    and "guard_entries s' =
       (if unat (i2s_slc_queue_len s) = 3 then tl (guard_entries s) else guard_entries s)
       @ [buf_ptr (i2s_slc_items s ! x)]"
  using isr_rxeof [OF assms] by blast

text \<open>Three completions, for the buffers 0, 1 and 2 in turn, fill the queue.\<close>

lemma started_slots:
  "buf_ptr (i2s_slc_items started ! 0) = 0x3FFF0000"
  "buf_ptr (i2s_slc_items started ! 1) = 0x3FFF0100"
  "buf_ptr (i2s_slc_items started ! 2) = 0x3FFF0200"
  "buf_ptr (i2s_slc_items started ! 3) = 0x3FFF0300"
  by (simp_all add: started_fields filled_item_def)

lemma started_three_completions:
  "\<exists>s. isr_run esp8266
          [(0x10000, item_addr esp8266 0), (0x10000, item_addr esp8266 1),
           (0x10000, item_addr esp8266 2)] started = Inr s \<and>
       wf_state s \<and> i2s_slc_items s = i2s_slc_items started \<and>
       unat (i2s_slc_queue_len s) = 3 \<and>
       guard_entries s = [0x3FFF0000, 0x3FFF0100, 0x3FFF0200]"
proof -
  have x0: "(0 :: nat) < 4" and x1: "(1 :: nat) < 4" and x2: "(2 :: nat) < 4"
    by simp_all
  have c0: "i2s_render started \<noteq> 0"
    by (simp add: started_fields)
  have g0: "guard_entries started = []"
    by (simp add: guard_entries_def started_fields)
  have n0: "unat (i2s_slc_queue_len started) = 0"
    by (simp add: started_fields)
  then have l0: "unat (i2s_slc_queue_len started) \<le> 3"
    by simp
  obtain s1 where r1: "i2s_slc_isr esp8266 0x10000 (item_addr esp8266 0) started = Inr s1"
    and w1: "wf_state s1" and i1: "i2s_slc_items s1 = i2s_slc_items started"
    and c1: "i2s_render s1 = i2s_render started"
    and n1: "unat (i2s_slc_queue_len s1) = min 3 (unat (i2s_slc_queue_len started) + 1)"
    and g1: "guard_entries s1 =
       (if unat (i2s_slc_queue_len started) = 3 then tl (guard_entries started)
        else guard_entries started) @ [buf_ptr (i2s_slc_items started ! 0)]"
    by (rule isr_step [OF wf_started l0 x0 rxeof_esp8266 c0])
  from c1 c0 have c1': "i2s_render s1 \<noteq> 0"
    by simp
  from n1 n0 have n1': "unat (i2s_slc_queue_len s1) = 1"
    by simp
  then have l1: "unat (i2s_slc_queue_len s1) \<le> 3"
    by simp
  from g1 g0 n0 have g1': "guard_entries s1 = [0x3FFF0000]"
    using started_slots by simp
  obtain s2 where r2: "i2s_slc_isr esp8266 0x10000 (item_addr esp8266 1) s1 = Inr s2"
    and w2: "wf_state s2" and i2: "i2s_slc_items s2 = i2s_slc_items s1"
    and c2: "i2s_render s2 = i2s_render s1"
    and n2: "unat (i2s_slc_queue_len s2) = min 3 (unat (i2s_slc_queue_len s1) + 1)"
    and g2: "guard_entries s2 =
       (if unat (i2s_slc_queue_len s1) = 3 then tl (guard_entries s1)
        else guard_entries s1) @ [buf_ptr (i2s_slc_items s1 ! 1)]"
    by (rule isr_step [OF w1 l1 x1 rxeof_esp8266 c1'])
  from c2 c1' have c2': "i2s_render s2 \<noteq> 0"
    by simp
  from n2 n1' have n2': "unat (i2s_slc_queue_len s2) = 2"
    by simp
  then have l2: "unat (i2s_slc_queue_len s2) \<le> 3"
    by simp
  from g2 g1' n1' i1 have g2': "guard_entries s2 = [0x3FFF0000, 0x3FFF0100]"
    using started_slots by simp
  obtain s3 where r3: "i2s_slc_isr esp8266 0x10000 (item_addr esp8266 2) s2 = Inr s3"
    and w3: "wf_state s3" and i3: "i2s_slc_items s3 = i2s_slc_items s2"
    and c3: "i2s_render s3 = i2s_render s2"
    and n3: "unat (i2s_slc_queue_len s3) = min 3 (unat (i2s_slc_queue_len s2) + 1)"
    and g3: "guard_entries s3 =
       (if unat (i2s_slc_queue_len s2) = 3 then tl (guard_entries s2)
        else guard_entries s2) @ [buf_ptr (i2s_slc_items s2 ! 2)]"
    by (rule isr_step [OF w2 l2 x2 rxeof_esp8266 c2'])
  from n3 n2' have n3': "unat (i2s_slc_queue_len s3) = 3"
    by simp
  from g3 g2' n2' i2 i1 have g3': "guard_entries s3 = [0x3FFF0000, 0x3FFF0100, 0x3FFF0200]"
    using started_slots by simp
  have "isr_run esp8266
          [(0x10000, item_addr esp8266 0), (0x10000, item_addr esp8266 1),
           (0x10000, item_addr esp8266 2)] started = Inr s3"
    using r1 r2 r3 by simp
  with w3 i3 i2 i1 n3' g3' show ?thesis
    by simp
qed

section \<open>The claims\<close>

text \<open>
  C1, as the code has it. The claim is that a second stop right after a stop is a safe
  no-op that frees nothing twice. \<^verbatim>\<open>i2s_end\<close> guards \<^verbatim>\<open>free\<close> by a null test of
  \<^verbatim>\<open>i2s_slc_buf_pntr\<close> but never resets the pointer: after start and stop in the evaluation
  session the pointer still holds the address of the released block, no block is
  allocated, and the second \<^verbatim>\<open>i2s_end\<close> passes that address to \<^verbatim>\<open>free\<close> again.
\<close>

theorem i2s_end_twice_invalid_free:
  "i2s_begin esp8266 0x40100000 0x3FFF8000 16000 0x3FFF0000 init_state = Inr started \<and>
   i2s_end started = Inr stopped \<and>
   i2s_slc_buf_pntr stopped = 0x3FFF0000 \<and>
   heap stopped = {} \<and>
   i2s_end stopped = Inl InvalidFree"
proof -
  have "i2s_end stopped = Inl InvalidFree"
    by (simp add: i2s_end_def Let_def i2s_slc_end_def emit_def free_block_def stopped_pool)
  then show ?thesis
    by (simp add: started_eq stopped_eq stopped_pool)
qed

text \<open>
  C7, as stated, fails: in the evaluation session the first thing \<^verbatim>\<open>i2s_end\<close> does is
  disable the peripheral clock; the interrupt source is disabled second.
\<close>

theorem i2s_end_clock_first:
  "i2s_begin esp8266 0x40100000 0x3FFF8000 16000 0x3FFF0000 init_state = Inr started \<and>
   run_events started (i2s_end started) =
     Inr [I2S_CLK_DISABLE,
          ETS_SLC_INTR_DISABLE,
          RegAssign SLCIC (Lit 0xFFFFFFFF),
          RegAssign SLCIE (Lit 0),
          RegClear SLCTXL [Macro ''SLCTXLAM << SLCTXLA''],
          RegClear SLCRXL [Macro ''SLCRXLAM << SLCRXLA''],
          Free 0x3FFF0000,
          RegClear I2SC [Macro ''I2SRST''], RegSet I2SC [Macro ''I2SRST''],
          RegClear I2SC [Macro ''I2SRST''],
          PinMode 2 INPUT, PinMode 3 FUNCTION_0, PinMode 15 INPUT]"
  using i2s_end_started
  by (auto simp: started_eq run_events_def events_since_append i2s_reset_def)

text \<open>
  C7, amended. Whenever \<^verbatim>\<open>i2s_end\<close> runs with a pool pointer that is null or allocated,
  it completes, and its steps are, in this order: disable the peripheral clock, disable
  the interrupt source, clear the pending interrupt flags, clear the interrupt enable
  mask, clear the TX and the RX descriptor address, free the pool (only when the pointer
  is not null), reset the I2S unit, restore the three pins. Disabling the interrupt source
  precedes every step but the clock's.
\<close>

theorem i2s_end_order:
  "i2s_slc_buf_pntr s = 0 \<or> i2s_slc_buf_pntr s \<in> heap s \<Longrightarrow>
   run_events s (i2s_end s) =
     Inr ([I2S_CLK_DISABLE,
           ETS_SLC_INTR_DISABLE,
           RegAssign SLCIC (Lit 0xFFFFFFFF),
           RegAssign SLCIE (Lit 0),
           RegClear SLCTXL [Macro ''SLCTXLAM << SLCTXLA''],
           RegClear SLCRXL [Macro ''SLCRXLAM << SLCRXLA'']]
          @ (if i2s_slc_buf_pntr s \<noteq> 0 then [Free (i2s_slc_buf_pntr s)] else [])
          @ i2s_reset
          @ [PinMode 2 INPUT, PinMode 3 FUNCTION_0, PinMode 15 INPUT])"
proof -
  assume "i2s_slc_buf_pntr s = 0 \<or> i2s_slc_buf_pntr s \<in> heap s"
  from i2s_end_trace [OF this] obtain s' where "i2s_end s = Inr s'"
    and "trace s' = trace s @
      [I2S_CLK_DISABLE, ETS_SLC_INTR_DISABLE, RegAssign SLCIC (Lit 0xFFFFFFFF),
        RegAssign SLCIE (Lit 0), RegClear SLCTXL [Macro ''SLCTXLAM << SLCTXLA''],
        RegClear SLCRXL [Macro ''SLCRXLAM << SLCRXLA'']]
      @ (if i2s_slc_buf_pntr s \<noteq> 0 then [Free (i2s_slc_buf_pntr s)] else [])
      @ i2s_reset @ [PinMode 2 INPUT, PinMode 3 FUNCTION_0, PinMode 15 INPUT]"
    by blast
  then show ?thesis
    by (simp add: run_events_def events_since_append)
qed

theorem i2s_end_order_witness:
  "(i2s_slc_buf_pntr started = 0 \<or> i2s_slc_buf_pntr started \<in> heap started) \<and>
   run_events started (i2s_end started) =
     Inr [I2S_CLK_DISABLE,
          ETS_SLC_INTR_DISABLE,
          RegAssign SLCIC (Lit 0xFFFFFFFF),
          RegAssign SLCIE (Lit 0),
          RegClear SLCTXL [Macro ''SLCTXLAM << SLCTXLA''],
          RegClear SLCRXL [Macro ''SLCRXLAM << SLCRXLA''],
          Free 0x3FFF0000,
          RegClear I2SC [Macro ''I2SRST''], RegSet I2SC [Macro ''I2SRST''],
          RegClear I2SC [Macro ''I2SRST''],
          PinMode 2 INPUT, PinMode 3 FUNCTION_0, PinMode 15 INPUT]"
  using i2s_end_order [of started]
  by (simp add: started_pool i2s_reset_def)

text \<open>
  C9, as stated, fails on the ESP8266 values: for a rate of 16000 the quotient 312 loses
  its high bits to the 6-bit mask, the dividers are 56 and 25, and the rate they give back
  is 57142, not within one of 16000.
\<close>

theorem i2s_dividers_16000_far_off:
  "i2s_dividers esp8266 16000 = Inr (56, 25) \<and>
   unat (I2SBASEFREQ esp8266) div (unat (56 :: u32) * unat (25 :: u8) * 2) = 57142 \<and>
   \<not> (57142 \<le> (16000 :: nat) + 1)"
  by (simp add: i2s_dividers_def i2s_clock_div_def i2s_bck_div_def esp8266_def)

text \<open>
  C9, amended. For a rate of 16000 and any base frequency and masks: when the computation
  yields dividers and the bit-clock divider is not zero, the rate they give back,
  \<open>F / (clock_div * bck_div * 2)\<close>, is at least 16000. (Each divider is a quotient rounded
  down and then masked, so the product can only be too small.)
\<close>

theorem i2s_dividers_16000_lower_bound:
  assumes ok: "i2s_dividers pf 16000 = Inr (cd, bd)" and nz: "bd \<noteq> 0"
  shows "16000 \<le> unat (I2SBASEFREQ pf) div (unat cd * unat bd * 2)"
proof -
  let ?F = "I2SBASEFREQ pf"
  from ok have cd: "cd = (?F div 512000) AND I2SCDM pf"
    by (auto simp: i2s_dividers_def i2s_clock_div_def i2s_bck_div_def
        split: if_splits sum.splits)
  from ok have bd: "bd = ucast ((?F div (16000 * cd * 2)) AND I2SBDM pf)"
    by (auto simp: i2s_dividers_def i2s_clock_div_def i2s_bck_div_def
        split: if_splits sum.splits)
  have "unat cd \<le> unat (?F div 512000)"
    unfolding cd by (rule word_and_le2 [THEN word_le_nat_alt [THEN iffD1]])
  also have "\<dots> = unat ?F div 512000"
    by (simp add: unat_div)
  finally have cd_le: "unat cd \<le> unat ?F div 512000" .
  have F_lt: "unat ?F < 2 ^ 32"
    using unsigned_less [of ?F] by simp
  from cd_le F_lt have cd_small: "unat cd \<le> 8388" by simp
  have d: "unat (16000 * cd * 2) = 32000 * unat cd"
    using cd_small by (simp add: unat_word_ariths)
  have "unat bd \<le> unat ((?F div (16000 * cd * 2)) AND I2SBDM pf)"
    unfolding bd by (rule unat_ucast_u8_le)
  also have "\<dots> \<le> unat (?F div (16000 * cd * 2))"
    by (rule word_and_le2 [THEN word_le_nat_alt [THEN iffD1]])
  also have "\<dots> = unat ?F div (32000 * unat cd)"
    using d by (simp add: unat_div)
  finally have bd_le: "unat bd \<le> unat ?F div (32000 * unat cd)" .
  from nz have bd_pos: "0 < unat bd"
    by (simp add: unat_gt_0)
  with bd_le have cd_pos: "0 < unat cd"
    by (cases "unat cd = 0") auto
  from bd_le have "unat bd * (32000 * unat cd) \<le> unat ?F"
    using cd_pos by (simp add: less_eq_div_iff_mult_less_eq)
  then have "16000 * (unat cd * unat bd * 2) \<le> unat ?F"
    by (simp add: mult.commute mult.left_commute)
  moreover have "0 < unat cd * unat bd * 2"
    using cd_pos bd_pos by simp
  ultimately show ?thesis
    by (simp add: less_eq_div_iff_mult_less_eq)
qed

theorem i2s_dividers_16000_lower_bound_witness:
  "i2s_dividers esp8266 16000 = Inr (56, 25) \<and> (25 :: u8) \<noteq> 0 \<and>
   16000 \<le> unat (I2SBASEFREQ esp8266) div (unat (56 :: u32) * unat (25 :: u8) * 2)"
  using i2s_dividers_16000_lower_bound [of esp8266 56 25]
  by (simp add: i2s_dividers_def i2s_clock_div_def i2s_bck_div_def esp8266_def)

text \<open>
  C10. The division that computes the bit-clock divider has no guard: whenever the masked
  clock divider is zero the computation ends in a division by zero; it yields dividers
  only if \<open>(I2SBASEFREQ / (rate * 32)) & I2SCDM\<close> is not zero; and such rates exist, every
  rate whose 32-fold exceeds the base frequency being one.
\<close>

theorem i2s_bck_div_unguarded:
  "(i2s_clock_div pf rate = Inr 0 \<longrightarrow>
      i2s_bck_div pf rate 0 = Inl DivisionByZero \<and> i2s_dividers pf rate = Inl DivisionByZero) \<and>
   (i2s_dividers pf rate = Inr (cd, bd) \<longrightarrow>
      (I2SBASEFREQ pf div (rate * 32)) AND I2SCDM pf \<noteq> 0) \<and>
   (rate * 32 \<noteq> 0 \<and> I2SBASEFREQ pf < rate * 32 \<longrightarrow> i2s_clock_div pf rate = Inr 0)"
  by (auto simp: i2s_dividers_def i2s_clock_div_def i2s_bck_div_def div_word_less
      split: if_splits sum.splits)

theorem i2s_bck_div_unguarded_witness:
  "i2s_clock_div esp8266 5000001 = Inr 0 \<and>
   i2s_bck_div esp8266 5000001 0 = Inl DivisionByZero \<and>
   i2s_dividers esp8266 5000001 = Inl DivisionByZero \<and>
   i2s_dividers esp8266 16000 = Inr (56, 25) \<and>
   (I2SBASEFREQ esp8266 div (16000 * 32)) AND I2SCDM esp8266 \<noteq> 0 \<and>
   (5000001 :: u32) * 32 \<noteq> 0 \<and> I2SBASEFREQ esp8266 < 5000001 * 32"
  using i2s_bck_div_unguarded [of esp8266 5000001]
    i2s_bck_div_unguarded [of esp8266 16000 56 25]
  by (simp add: i2s_dividers_def i2s_clock_div_def i2s_bck_div_def esp8266_def)

text \<open>
  C5. When \<^verbatim>\<open>i2s_slc_begin\<close> runs with a render callback set, it returns, and the
  descriptors it has wired form one cycle of length exactly \<open>SLC_BUF_CNT\<close>: from the
  address of any descriptor, following \<^verbatim>\<open>next_link_ptr\<close> \<open>SLC_BUF_CNT\<close> times leads back to
  that address, and no smaller positive number of steps does. (With a null callback the
  function traps in its first call of it, before any descriptor is written.)
\<close>

theorem descriptor_ring_cycle:
  assumes wf: "wf_state s" and cb: "i2s_render s \<noteq> 0" and x: "x < SLC_BUF_CNT"
  shows "\<exists>s'. i2s_slc_begin pf p s = Inr s' \<and>
           follow_links pf (i2s_slc_items s') SLC_BUF_CNT (item_addr pf x)
             = Some (item_addr pf x) \<and>
           (\<forall>k. 0 < k \<and> k < SLC_BUF_CNT \<longrightarrow>
              follow_links pf (i2s_slc_items s') k (item_addr pf x) \<noteq> Some (item_addr pf x))"
proof -
  from i2s_slc_begin_Inr [OF cb, of pf p] obtain s' where
    ret: "i2s_slc_begin pf p s = Inr s'"
    and upd: "i2s_slc_items s' =
      (i2s_slc_items s)[0 := filled_item pf p 0, 1 := filled_item pf p 1,
                         2 := filled_item pf p 2, 3 := filled_item pf p 3]"
    by blast
  from wf have "length (i2s_slc_items s) = 4"
    by (simp add: wf_state_def SLC_BUF_CNT_def)
  with upd have ring: "i2s_slc_items s' =
      [filled_item pf p 0, filled_item pf p 1, filled_item pf p 2, filled_item pf p 3]"
    by (simp only: ring_of_four)
  from x have x4: "x < 4" by (simp add: SLC_BUF_CNT_def)
  have round: "follow_links pf (i2s_slc_items s') 4 (item_addr pf x) = Some (item_addr pf x)"
    unfolding ring using x4 by (simp only: follow_ring) simp
  have "follow_links pf (i2s_slc_items s') k (item_addr pf x) \<noteq> Some (item_addr pf x)"
    if k: "0 < k" "k < 4" for k
  proof
    assume "follow_links pf (i2s_slc_items s') k (item_addr pf x) = Some (item_addr pf x)"
    then have "item_addr pf ((x + k) mod 4) = item_addr pf x"
      unfolding ring using x4 by (simp only: follow_ring) simp
    then have "(x + k) mod 4 = x"
      using x4 by (intro item_addr_inj) simp_all
    with k x4 show False by presburger
  qed
  with round ret show ?thesis
    by (simp add: SLC_BUF_CNT_def)
qed

theorem descriptor_ring_cycle_witness:
  "wf_state (init_state\<lparr> i2s_render := 0x40100000, i2s_render_refcon := 0x3FFF8000 \<rparr>) \<and>
   i2s_render (init_state\<lparr> i2s_render := 0x40100000, i2s_render_refcon := 0x3FFF8000 \<rparr>) \<noteq> 0 \<and>
   (2 :: nat) < SLC_BUF_CNT \<and>
   (\<exists>s'. i2s_slc_begin esp8266 0x3FFF0000
           (init_state\<lparr> i2s_render := 0x40100000, i2s_render_refcon := 0x3FFF8000 \<rparr>) = Inr s' \<and>
         follow_links esp8266 (i2s_slc_items s') SLC_BUF_CNT (item_addr esp8266 2)
           = Some (item_addr esp8266 2) \<and>
         follow_links esp8266 (i2s_slc_items s') 1 (item_addr esp8266 2)
           \<noteq> Some (item_addr esp8266 2) \<and>
         follow_links esp8266 (i2s_slc_items s') 2 (item_addr esp8266 2)
           \<noteq> Some (item_addr esp8266 2) \<and>
         follow_links esp8266 (i2s_slc_items s') 3 (item_addr esp8266 2)
           \<noteq> Some (item_addr esp8266 2))"
proof -
  let ?s = "init_state\<lparr> i2s_render := 0x40100000, i2s_render_refcon := 0x3FFF8000 \<rparr>"
  have wf: "wf_state ?s"
    using wf_init by (simp add: wf_state_def)
  have cb: "i2s_render ?s \<noteq> 0"
    by simp
  have x: "(2 :: nat) < SLC_BUF_CNT"
    by (simp add: SLC_BUF_CNT_def)
  from descriptor_ring_cycle [where pf = esp8266 and p = "0x3FFF0000", OF wf cb x]
  obtain s' where ret: "i2s_slc_begin esp8266 0x3FFF0000 ?s = Inr s'"
    and round: "follow_links esp8266 (i2s_slc_items s') SLC_BUF_CNT (item_addr esp8266 2)
                  = Some (item_addr esp8266 2)"
    and far: "\<forall>k. 0 < k \<and> k < SLC_BUF_CNT \<longrightarrow>
      follow_links esp8266 (i2s_slc_items s') k (item_addr esp8266 2)
        \<noteq> Some (item_addr esp8266 2)"
    by blast
  have "0 < (1 :: nat) \<and> (1 :: nat) < SLC_BUF_CNT" "0 < (2 :: nat) \<and> (2 :: nat) < SLC_BUF_CNT"
    "0 < (3 :: nat) \<and> (3 :: nat) < SLC_BUF_CNT"
    by (simp_all add: SLC_BUF_CNT_def)
  with far have "follow_links esp8266 (i2s_slc_items s') 1 (item_addr esp8266 2)
        \<noteq> Some (item_addr esp8266 2)"
    and "follow_links esp8266 (i2s_slc_items s') 2 (item_addr esp8266 2)
        \<noteq> Some (item_addr esp8266 2)"
    and "follow_links esp8266 (i2s_slc_items s') 3 (item_addr esp8266 2)
        \<noteq> Some (item_addr esp8266 2)"
    by blast+
  with ret round wf cb x show ?thesis
    by blast
qed

text \<open>
  C8. After a start that completes with a pool (the allocator answered a non-null block
  that lies inside the 32-bit address space), there are \<open>SLC_BUF_CNT\<close> descriptors,
  descriptor \<open>x\<close> points at byte \<open>x * SLC_BUF_LEN * 4\<close> of the pool, the buffer pointers are
  pairwise different and none is null, and every descriptor has block size and data
  length \<open>SLC_BUF_LEN * 4\<close> (the buffer's length in bytes), end-of-frame 1 and owner 1.
\<close>

theorem descriptors_after_start:
  assumes wf: "wf_state s"
    and start: "i2s_begin pf render refcon rate p s = Inr s1"
    and nonnull: "p \<noteq> 0"
    and fits: "unat p + SLC_BUF_LEN * 4 * SLC_BUF_CNT \<le> 2 ^ 32"
  shows "length (i2s_slc_items s1) = SLC_BUF_CNT \<and>
         map buf_ptr (i2s_slc_items s1) =
           map (\<lambda>x. p + of_nat (x * SLC_BUF_LEN * 4)) [0, 1, 2, 3] \<and>
         distinct (map buf_ptr (i2s_slc_items s1)) \<and>
         (\<forall>it \<in> set (i2s_slc_items s1).
            buf_ptr it \<noteq> 0 \<and>
            unat (blocksize it) = SLC_BUF_LEN * 4 \<and> unat (datalen it) = SLC_BUF_LEN * 4 \<and>
            eof it = 1 \<and> owner it = 1)"
proof -
  from wf start have items: "i2s_slc_items s1 =
      [filled_item pf p 0, filled_item pf p 1, filled_item pf p 2, filled_item pf p 3]"
    by (rule i2s_begin_ring)
  from fits have fits': "unat p + 1024 \<le> 2 ^ 32"
    by (simp add: SLC_BUF_LEN_def SLC_BUF_CNT_def)
  have nn: "p + of_nat (x * 256) \<noteq> 0" if "x < 4" for x
    using nonnull fits' that by (rule pool_slot_nonnull)
  from nn [of 0] nn [of 1] nn [of 2] nn [of 3]
  have "p \<noteq> 0" "p + 256 \<noteq> 0" "p + 512 \<noteq> 0" "p + 768 \<noteq> 0"
    by simp_all
  then show ?thesis
    unfolding items
    by (simp add: filled_item_def SLC_BUF_LEN_def SLC_BUF_CNT_def)
qed

theorem descriptors_after_start_witness:
  "wf_state init_state \<and>
   i2s_begin esp8266 0x40100000 0x3FFF8000 16000 0x3FFF0000 init_state = Inr started \<and>
   (0x3FFF0000 :: u32) \<noteq> 0 \<and>
   unat (0x3FFF0000 :: u32) + SLC_BUF_LEN * 4 * SLC_BUF_CNT \<le> 2 ^ 32 \<and>
   length (i2s_slc_items started) = 4 \<and>
   map buf_ptr (i2s_slc_items started) = [0x3FFF0000, 0x3FFF0100, 0x3FFF0200, 0x3FFF0300] \<and>
   distinct (map buf_ptr (i2s_slc_items started)) \<and>
   list_all (\<lambda>it. buf_ptr it \<noteq> 0 \<and> unat (blocksize it) = 256 \<and> unat (datalen it) = 256 \<and>
                  eof it = 1 \<and> owner it = 1) (i2s_slc_items started)"
proof -
  have n: "(0x3FFF0000 :: u32) \<noteq> 0" by simp
  have f: "unat (0x3FFF0000 :: u32) + SLC_BUF_LEN * 4 * SLC_BUF_CNT \<le> 2 ^ 32"
    by (simp add: SLC_BUF_LEN_def SLC_BUF_CNT_def)
  from descriptors_after_start [OF wf_init started_eq n f] n f wf_init started_eq
  show ?thesis
    by (simp add: SLC_BUF_LEN_def SLC_BUF_CNT_def list_all_iff)
qed

text \<open>
  C3. After a start and any sequence of completion events the handler has run through
  without error and the queue holds at most \<open>SLC_BUF_CNT - 1\<close> entries; and when it holds
  exactly that many, one more completion drops exactly the oldest entry, appends the
  buffer just completed at the back and leaves the length at \<open>SLC_BUF_CNT - 1\<close>.
\<close>

theorem underrun_guard_bounded:
  assumes wf: "wf_state s"
    and start: "i2s_begin pf render refcon rate p s = Inr s1"
    and evs: "list_all (completion pf) evs"
  shows "\<exists>s2. isr_run pf evs s1 = Inr s2 \<and>
           unat (i2s_slc_queue_len s2) \<le> SLC_BUF_CNT - 1 \<and>
           length (guard_entries s2) = unat (i2s_slc_queue_len s2) \<and>
           (\<forall>st x. unat (i2s_slc_queue_len s2) = SLC_BUF_CNT - 1 \<and>
                   (st AND SLCIRXEOF pf) \<noteq> 0 \<and> x < SLC_BUF_CNT \<longrightarrow>
              (\<exists>s3. i2s_slc_isr pf st (item_addr pf x) s2 = Inr s3 \<and>
                    guard_entries s3 =
                      tl (guard_entries s2) @ [buf_ptr (i2s_slc_items s2 ! x)] \<and>
                    unat (i2s_slc_queue_len s3) = SLC_BUF_CNT - 1))"
proof -
  from wf start have wf1: "wf_state s1"
    by (rule i2s_begin_wf)
  from start have len1: "unat (i2s_slc_queue_len s1) \<le> 3"
    by (simp add: i2s_begin_fields)
  from start have cb1: "i2s_render s1 \<noteq> 0"
    by (simp add: i2s_begin_fields)
  from isr_run_completions [OF wf1 len1 cb1 evs] obtain s2 where
    run: "isr_run pf evs s1 = Inr s2" and wf2: "wf_state s2"
    and len2: "unat (i2s_slc_queue_len s2) \<le> 3"
    and "i2s_render s2 = i2s_render s1"
    by blast
  with cb1 have cb2: "i2s_render s2 \<noteq> 0"
    by simp
  from wf2 len2 have entries: "length (guard_entries s2) = unat (i2s_slc_queue_len s2)"
    by (simp add: guard_entries_def wf_state_def SLC_BUF_CNT_def)
  have push: "\<exists>s3. i2s_slc_isr pf st (item_addr pf x) s2 = Inr s3 \<and>
                 guard_entries s3 = tl (guard_entries s2) @ [buf_ptr (i2s_slc_items s2 ! x)] \<and>
                 unat (i2s_slc_queue_len s3) = 3"
    if full: "unat (i2s_slc_queue_len s2) = 3" and st: "(st AND SLCIRXEOF pf) \<noteq> 0"
      and x: "x < 4" for st x
    using isr_rxeof [OF wf2 len2 x st cb2] full by auto
  from run len2 entries push show ?thesis
    by (auto simp: SLC_BUF_CNT_def)
qed

theorem underrun_guard_bounded_witness:
  "wf_state init_state \<and>
   i2s_begin esp8266 0x40100000 0x3FFF8000 16000 0x3FFF0000 init_state = Inr started \<and>
   list_all (completion esp8266)
     [(0x10000, item_addr esp8266 0), (0x10000, item_addr esp8266 1),
      (0x10000, item_addr esp8266 2)] \<and>
   (\<exists>s2 s3.
      isr_run esp8266
        [(0x10000, item_addr esp8266 0), (0x10000, item_addr esp8266 1),
         (0x10000, item_addr esp8266 2)] started = Inr s2 \<and>
      unat (i2s_slc_queue_len s2) = SLC_BUF_CNT - 1 \<and>
      guard_entries s2 = [0x3FFF0000, 0x3FFF0100, 0x3FFF0200] \<and>
      (0x10000 AND SLCIRXEOF esp8266) \<noteq> 0 \<and> (3 :: nat) < SLC_BUF_CNT \<and>
      i2s_slc_isr esp8266 0x10000 (item_addr esp8266 3) s2 = Inr s3 \<and>
      guard_entries s3 = [0x3FFF0100, 0x3FFF0200, 0x3FFF0300] \<and>
      unat (i2s_slc_queue_len s3) = SLC_BUF_CNT - 1)"
proof -
  let ?evs = "[(0x10000, item_addr esp8266 0), (0x10000, item_addr esp8266 1),
               (0x10000, item_addr esp8266 2)]"
  have evs: "list_all (completion esp8266) ?evs"
    by (simp add: completion_esp8266)
  from started_three_completions obtain s2 where
    run: "isr_run esp8266 ?evs started = Inr s2"
    and items: "i2s_slc_items s2 = i2s_slc_items started"
    and full: "unat (i2s_slc_queue_len s2) = 3"
    and entries: "guard_entries s2 = [0x3FFF0000, 0x3FFF0100, 0x3FFF0200]"
    by blast
  from underrun_guard_bounded [OF wf_init started_eq evs] run
  have "\<forall>st x. unat (i2s_slc_queue_len s2) = SLC_BUF_CNT - 1 \<and>
               (st AND SLCIRXEOF esp8266) \<noteq> 0 \<and> x < SLC_BUF_CNT \<longrightarrow>
          (\<exists>s3. i2s_slc_isr esp8266 st (item_addr esp8266 x) s2 = Inr s3 \<and>
                guard_entries s3 = tl (guard_entries s2) @ [buf_ptr (i2s_slc_items s2 ! x)] \<and>
                unat (i2s_slc_queue_len s3) = SLC_BUF_CNT - 1)"
    by auto
  moreover have pre: "unat (i2s_slc_queue_len s2) = SLC_BUF_CNT - 1 \<and>
      ((0x10000 :: u32) AND SLCIRXEOF esp8266) \<noteq> 0 \<and> (3 :: nat) < SLC_BUF_CNT"
    using full rxeof_esp8266 by (simp add: SLC_BUF_CNT_def)
  ultimately obtain s3 where
    "i2s_slc_isr esp8266 0x10000 (item_addr esp8266 3) s2 = Inr s3"
    "guard_entries s3 = tl (guard_entries s2) @ [buf_ptr (i2s_slc_items s2 ! 3)]"
    "unat (i2s_slc_queue_len s3) = SLC_BUF_CNT - 1"
    by blast
  with run pre entries items evs wf_init started_eq show ?thesis
    by (auto simp: started_fields filled_item_def)
qed

text \<open>
  C4. A start that completes calls the render callback exactly \<open>SLC_BUF_CNT\<close> times, once
  for each buffer of the pool in order; after \<open>M\<close> completion events on top of it the
  callback has been called exactly \<open>SLC_BUF_CNT + M\<close> times more than before the start.
\<close>

theorem render_call_count:
  assumes wf: "wf_state s"
    and start: "i2s_begin pf render refcon rate p s = Inr s1"
    and evs: "list_all (completion pf) evs"
  shows "filter is_render (events_since s s1) =
           map (\<lambda>x. Render render refcon (p + of_nat (x * SLC_BUF_LEN * 4)) SLC_BUF_LEN)
             [0, 1, 2, 3] \<and>
         renders (trace s1) = renders (trace s) + SLC_BUF_CNT \<and>
         (\<exists>s2. isr_run pf evs s1 = Inr s2 \<and>
               renders (trace s2) = renders (trace s) + SLC_BUF_CNT + length evs)"
proof -
  from i2s_begin_trace [OF start] obtain new where
    new: "trace s1 = trace s @ new"
      "filter is_render new =
         map (\<lambda>x. Render render refcon (p + of_nat (x * SLC_BUF_LEN * 4)) SLC_BUF_LEN)
           [0, 1, 2, 3]"
    by blast
  from new have prefill: "renders (trace s1) = renders (trace s) + SLC_BUF_CNT"
    by (simp add: renders_def SLC_BUF_CNT_def)
  from wf start have wf1: "wf_state s1"
    by (rule i2s_begin_wf)
  from start have len1: "unat (i2s_slc_queue_len s1) \<le> 3"
    by (simp add: i2s_begin_fields)
  from start have cb1: "i2s_render s1 \<noteq> 0"
    by (simp add: i2s_begin_fields)
  from isr_run_completions [OF wf1 len1 cb1 evs] obtain s2 where
    "isr_run pf evs s1 = Inr s2" "renders (trace s2) = renders (trace s1) + length evs"
    by blast
  with prefill new show ?thesis
    by (simp add: events_since_append)
qed

theorem render_call_count_witness:
  "wf_state init_state \<and>
   i2s_begin esp8266 0x40100000 0x3FFF8000 16000 0x3FFF0000 init_state = Inr started \<and>
   list_all (completion esp8266)
     [(0x10000, item_addr esp8266 0), (0x10000, item_addr esp8266 1),
      (0x10000, item_addr esp8266 2), (0x10000, item_addr esp8266 3),
      (0x10000, item_addr esp8266 0), (0x10000, item_addr esp8266 1),
      (0x10000, item_addr esp8266 2), (0x10000, item_addr esp8266 3),
      (0x10000, item_addr esp8266 0), (0x10000, item_addr esp8266 1)] \<and>
   filter is_render (events_since init_state started) =
     [Render 0x40100000 0x3FFF8000 0x3FFF0000 64, Render 0x40100000 0x3FFF8000 0x3FFF0100 64,
      Render 0x40100000 0x3FFF8000 0x3FFF0200 64, Render 0x40100000 0x3FFF8000 0x3FFF0300 64] \<and>
   renders (trace started) = 4 \<and>
   (\<exists>s2. isr_run esp8266
      [(0x10000, item_addr esp8266 0), (0x10000, item_addr esp8266 1),
       (0x10000, item_addr esp8266 2), (0x10000, item_addr esp8266 3),
       (0x10000, item_addr esp8266 0), (0x10000, item_addr esp8266 1),
       (0x10000, item_addr esp8266 2), (0x10000, item_addr esp8266 3),
       (0x10000, item_addr esp8266 0), (0x10000, item_addr esp8266 1)] started = Inr s2 \<and>
      renders (trace s2) = 14)"
proof -
  let ?evs = "[(0x10000, item_addr esp8266 0), (0x10000, item_addr esp8266 1),
      (0x10000, item_addr esp8266 2), (0x10000, item_addr esp8266 3),
      (0x10000, item_addr esp8266 0), (0x10000, item_addr esp8266 1),
      (0x10000, item_addr esp8266 2), (0x10000, item_addr esp8266 3),
      (0x10000, item_addr esp8266 0), (0x10000, item_addr esp8266 1)]"
  have evs: "list_all (completion esp8266) ?evs"
    by (simp add: completion_esp8266)
  have none: "renders (trace init_state) = 0"
    by (simp add: renders_def init_state_def)
  from render_call_count [OF wf_init started_eq evs] none evs wf_init started_eq
  show ?thesis
    by (simp add: SLC_BUF_CNT_def SLC_BUF_LEN_def)
qed

text \<open>
  C6. In a session that was started, every invocation of the handler for a completion
  (after any number of earlier completions) returns, and what it does is, in this order:
  acknowledge the pending flags, disable the interrupt source, call the render callback
  once, on the buffer of the finished descriptor, and enable the interrupt source again
  as its last step. The call lies strictly between the disable and the enable.
\<close>

theorem i2s_slc_isr_masks_render:
  assumes wf: "wf_state s"
    and start: "i2s_begin pf render refcon rate p s = Inr s1"
    and evs: "list_all (completion pf) evs"
    and ev: "completion pf (st, eda)"
  shows "\<exists>s2 x. isr_run pf evs s1 = Inr s2 \<and> item_index pf eda = Some x \<and>
           run_events s2 (i2s_slc_isr pf st eda s2) =
             Inr [RegAssign SLCIC (Lit 0xFFFFFFFF),
                  ETS_SLC_INTR_DISABLE,
                  Render render refcon (p + of_nat (x * SLC_BUF_LEN * 4)) SLC_BUF_LEN,
                  ETS_SLC_INTR_ENABLE]"
proof -
  from wf start have wf1: "wf_state s1"
    by (rule i2s_begin_wf)
  from start have len1: "unat (i2s_slc_queue_len s1) \<le> 3"
    and cb1: "i2s_render s1 \<noteq> 0"
    and r1: "i2s_render s1 = render" and c1: "i2s_render_refcon s1 = refcon"
    by (simp_all add: i2s_begin_fields)
  from wf start have ring: "i2s_slc_items s1 =
      [filled_item pf p 0, filled_item pf p 1, filled_item pf p 2, filled_item pf p 3]"
    by (rule i2s_begin_ring)
  from isr_run_completions [OF wf1 len1 cb1 evs] obtain s2 where
    run: "isr_run pf evs s1 = Inr s2" and wf2: "wf_state s2"
    and len2: "unat (i2s_slc_queue_len s2) \<le> 3"
    and items2: "i2s_slc_items s2 = i2s_slc_items s1"
    and r2: "i2s_render s2 = i2s_render s1"
    and c2: "i2s_render_refcon s2 = i2s_render_refcon s1"
    by blast
  from r2 cb1 have cb2: "i2s_render s2 \<noteq> 0"
    by simp
  from ev obtain x where ix: "item_index pf eda = Some x" and x: "x < 4"
    and eda: "eda = item_addr pf x" and st: "(st AND SLCIRXEOF pf) \<noteq> 0"
    by (auto simp: completion_def dest: item_index_SomeD)
  from x have buf: "buf_ptr (i2s_slc_items s2 ! x) = p + of_nat (x * SLC_BUF_LEN * 4)"
    unfolding items2 ring
    by (auto dest!: lt4_cases simp: filled_item_def SLC_BUF_LEN_def)
  from isr_rxeof [OF wf2 len2 x st cb2] obtain s3 where
    "i2s_slc_isr pf st (item_addr pf x) s2 = Inr s3"
    "trace s3 = trace s2 @
       [RegAssign SLCIC (Lit 0xFFFFFFFF), ETS_SLC_INTR_DISABLE,
        Render (i2s_render s2) (i2s_render_refcon s2) (buf_ptr (i2s_slc_items s2 ! x))
          SLC_BUF_LEN,
        ETS_SLC_INTR_ENABLE]"
    by blast
  then have "run_events s2 (i2s_slc_isr pf st eda s2) =
      Inr [RegAssign SLCIC (Lit 0xFFFFFFFF), ETS_SLC_INTR_DISABLE,
           Render render refcon (p + of_nat (x * SLC_BUF_LEN * 4)) SLC_BUF_LEN,
           ETS_SLC_INTR_ENABLE]"
    unfolding eda by (simp add: run_events_def events_since_append r2 c2 r1 c1 buf)
  with run ix show ?thesis
    by blast
qed

theorem i2s_slc_isr_masks_render_witness:
  "wf_state init_state \<and>
   i2s_begin esp8266 0x40100000 0x3FFF8000 16000 0x3FFF0000 init_state = Inr started \<and>
   list_all (completion esp8266)
     [(0x10000, item_addr esp8266 0), (0x10000, item_addr esp8266 1),
      (0x10000, item_addr esp8266 2)] \<and>
   completion esp8266 (0x10000, item_addr esp8266 3) \<and>
   (\<exists>s2. isr_run esp8266
           [(0x10000, item_addr esp8266 0), (0x10000, item_addr esp8266 1),
            (0x10000, item_addr esp8266 2)] started = Inr s2 \<and>
         run_events s2 (i2s_slc_isr esp8266 0x10000 (item_addr esp8266 3) s2) =
           Inr [RegAssign SLCIC (Lit 0xFFFFFFFF),
                ETS_SLC_INTR_DISABLE,
                Render 0x40100000 0x3FFF8000 0x3FFF0300 64,
                ETS_SLC_INTR_ENABLE])"
proof -
  let ?evs = "[(0x10000, item_addr esp8266 0), (0x10000, item_addr esp8266 1),
               (0x10000, item_addr esp8266 2)]"
  have evs: "list_all (completion esp8266) ?evs"
    by (simp add: completion_esp8266)
  have ev: "completion esp8266 (0x10000, item_addr esp8266 3)"
    by (simp add: completion_esp8266)
  from i2s_slc_isr_masks_render [OF wf_init started_eq evs ev]
  obtain s2 x where run: "isr_run esp8266 ?evs started = Inr s2"
    and ix: "item_index esp8266 (item_addr esp8266 3) = Some x"
    and tr: "run_events s2 (i2s_slc_isr esp8266 0x10000 (item_addr esp8266 3) s2) =
      Inr [RegAssign SLCIC (Lit 0xFFFFFFFF), ETS_SLC_INTR_DISABLE,
           Render 0x40100000 0x3FFF8000 (0x3FFF0000 + of_nat (x * SLC_BUF_LEN * 4)) SLC_BUF_LEN,
           ETS_SLC_INTR_ENABLE]"
    by blast
  from ix have "x = 3"
    by (simp add: item_index_item_addr)
  with tr have "run_events s2 (i2s_slc_isr esp8266 0x10000 (item_addr esp8266 3) s2) =
      Inr [RegAssign SLCIC (Lit 0xFFFFFFFF), ETS_SLC_INTR_DISABLE,
           Render 0x40100000 0x3FFF8000 0x3FFF0300 64, ETS_SLC_INTR_ENABLE]"
    by (simp add: SLC_BUF_LEN_def)
  with run evs ev wf_init started_eq show ?thesis
    by blast
qed

text \<open>
  C2, as the code has it. The claim is that a start whose allocation fails goes no
  further. \<^verbatim>\<open>i2s_slc_begin\<close> does not test what \<^verbatim>\<open>malloc\<close> answers (\<^verbatim>\<open>i2s_end\<close> does test the
  same pointer): with a null answer the start of the evaluation session runs to its end
  like any other. The callback is called on the addresses 0, 256, 512 and 768, the ring
  is wired over them and the handler is attached.
\<close>

theorem i2s_begin_null_pool_proceeds:
  "i2s_begin esp8266 0x40100000 0x3FFF8000 16000 0 init_state = Inr started_null \<and>
   events_since init_state started_null =
     Malloc 1024 0 #
     [Render 0x40100000 0x3FFF8000 0 64, Render 0x40100000 0x3FFF8000 256 64,
      Render 0x40100000 0x3FFF8000 512 64, Render 0x40100000 0x3FFF8000 768 64]
     @ slc_begin_setup esp8266 @ i2s_begin_setup @ i2s_begin_rate 56 25 \<and>
   ETS_SLC_INTR_ATTACH \<in> set (slc_begin_setup esp8266) \<and>
   map buf_ptr (i2s_slc_items started_null) = [0, 256, 512, 768]"
proof -
  have "trace started_null = trace init_state @
     Malloc 1024 0 #
     [Render 0x40100000 0x3FFF8000 0 64, Render 0x40100000 0x3FFF8000 256 64,
      Render 0x40100000 0x3FFF8000 512 64, Render 0x40100000 0x3FFF8000 768 64]
     @ slc_begin_setup esp8266 @ i2s_begin_setup @ i2s_begin_rate 56 25"
    using i2s_begin_trace_full [OF started_null_eq dividers_16000]
    by (simp add: SLC_BUF_LEN_def SLC_BUF_CNT_def)
  then have "events_since init_state started_null =
     Malloc 1024 0 #
     [Render 0x40100000 0x3FFF8000 0 64, Render 0x40100000 0x3FFF8000 256 64,
      Render 0x40100000 0x3FFF8000 512 64, Render 0x40100000 0x3FFF8000 768 64]
     @ slc_begin_setup esp8266 @ i2s_begin_setup @ i2s_begin_rate 56 25"
    by (rule events_since_append)
  moreover have "map buf_ptr (i2s_slc_items started_null) = [0, 256, 512, 768]"
    using i2s_begin_ring [OF wf_init started_null_eq]
    by (simp add: filled_item_def)
  moreover have "ETS_SLC_INTR_ATTACH \<in> set (slc_begin_setup esp8266)"
    by (simp add: slc_begin_setup_def)
  ultimately show ?thesis
    by (simp add: started_null_eq)
qed

end
